theory Spec2Isabelle
  imports Main "HOL-Library.Word"
begin

section \<open>JavaScript values\<close>

text \<open>
  \<^verbatim>\<open>BunCache\<close> (\<^verbatim>\<open>src/index.ts\<close>) stores \<^verbatim>\<open>string | object | null\<close> and hands
  back \<^verbatim>\<open>string | object | boolean | null\<close>.

  A JavaScript string is a sequence of 16-bit code units. Code units are written as
  numbers: \<open>0x22\<close> the quotation mark, \<open>0x5C\<close> the backslash, \<open>0x2C\<close> the comma,
  \<open>0x3A\<close> the colon, \<open>0x5B\<close> and \<open>0x5D\<close> the square brackets, \<open>0x7B\<close> and \<open>0x7D\<close> the
  braces, \<open>0x2D\<close> minus, \<open>0x2B\<close> plus, \<open>0x2E\<close> the full stop, \<open>0x30\<close> to \<open>0x39\<close> the
  digits, \<open>0x65\<close> and \<open>0x45\<close> the letter e; \<open>str\<close> turns an ASCII literal into a
  JavaScript string.
\<close>

type_synonym code_unit = "16 word"

type_synonym js_string = "code_unit list"

definition str :: "string \<Rightarrow> js_string" where
  "str s = map of_char s"

text \<open>
  JavaScript numbers are binary floating-point values. Their arithmetic is not needed
  here, only how the runtime writes a number as text and reads a number from text, so
  the number type is a parameter \<open>'n\<close> and the four operations of the runtime that the
  code relies on are taken as they are:
  \<^item> \<open>is_finite n\<close>: \<open>n\<close> is neither \<^verbatim>\<open>NaN\<close> nor an infinity;
  \<^item> \<open>is_zero_or_NaN n\<close>: \<open>n\<close> is falsy;
  \<^item> \<open>to_text n\<close>: \<^verbatim>\<open>Number.prototype.toString\<close> of \<open>n\<close>;
  \<^item> \<open>of_text t\<close>: the number that a JSON number literal \<open>t\<close> denotes, rounded as
    the runtime rounds it.
\<close>

record 'n number_ops =
  is_finite :: "'n \<Rightarrow> bool"
  is_zero_or_NaN :: "'n \<Rightarrow> bool"
  to_text :: "'n \<Rightarrow> js_string"
  of_text :: "js_string \<Rightarrow> 'n"

text \<open>
  The values are those of the JSON data model: an array is the list of its elements
  and an object the list of its own properties, in the order in which the runtime
  enumerates them. What \<^verbatim>\<open>JSON.stringify\<close> does with the other values of
  JavaScript (\<^verbatim>\<open>undefined\<close>, functions, symbols, big integers, objects with a
  \<^verbatim>\<open>toJSON\<close> method, objects that contain themselves) is not part of the theory.
\<close>

datatype 'n js_value =
    JNull
  | JBool bool
  | JNumber 'n
  | JString js_string
  | JArray "'n js_value list"
  | JObject "(js_string \<times> 'n js_value) list"

text \<open>
  \<^verbatim>\<open>value ? ... : null\<close> in \<^verbatim>\<open>put\<close> tests the truthiness of the value (ToBoolean):
  \<^verbatim>\<open>null\<close>, \<^verbatim>\<open>false\<close>, zero, \<^verbatim>\<open>NaN\<close> and the empty string are falsy, every object
  and array is truthy.
\<close>

fun truthy :: "'n number_ops \<Rightarrow> 'n js_value \<Rightarrow> bool" where
  "truthy ops JNull = False"
| "truthy ops (JBool b) = b"
| "truthy ops (JNumber n) = (\<not> is_zero_or_NaN ops n)"
| "truthy ops (JString s) = (s \<noteq> [])"
| "truthy ops (JArray vs) = True"
| "truthy ops (JObject ps) = True"

section \<open>JSON.stringify\<close>

text \<open>
  \<^verbatim>\<open>JSON.stringify(value)\<close> with no replacer and no indentation, as ECMAScript
  defines it (SerializeJSONProperty, QuoteJSONString, UnicodeEscape). QuoteJSONString
  escapes the quotation mark, the backslash, the control characters below U+0020 and
  every surrogate that is not half of a pair; the five control characters with a short
  form take that form, the others and the lone surrogates are written \<^verbatim>\<open>\uXXXX\<close>
  in lower-case hexadecimal. A number that is not finite is written \<^verbatim>\<open>null\<close>.
\<close>

definition hex_digit :: "nat \<Rightarrow> code_unit" where
  "hex_digit n = str ''0123456789abcdef'' ! n"

definition UnicodeEscape :: "code_unit \<Rightarrow> js_string" where
  "UnicodeEscape c =
     [0x5C, 0x75,
      hex_digit (nat (uint c div 4096)), hex_digit (nat (uint c div 256 mod 16)),
      hex_digit (nat (uint c div 16 mod 16)), hex_digit (nat (uint c mod 16))]"

definition is_high_surrogate :: "code_unit \<Rightarrow> bool" where
  "is_high_surrogate c \<longleftrightarrow> 0xD800 \<le> c \<and> c \<le> 0xDBFF"

definition is_low_surrogate :: "code_unit \<Rightarrow> bool" where
  "is_low_surrogate c \<longleftrightarrow> 0xDC00 \<le> c \<and> c \<le> 0xDFFF"

definition quote_unit :: "code_unit \<Rightarrow> js_string" where
  "quote_unit c =
     (if c = 0x08 then [0x5C, 0x62]
      else if c = 0x09 then [0x5C, 0x74]
      else if c = 0x0A then [0x5C, 0x6E]
      else if c = 0x0C then [0x5C, 0x66]
      else if c = 0x0D then [0x5C, 0x72]
      else if c = 0x22 then [0x5C, 0x22]
      else if c = 0x5C then [0x5C, 0x5C]
      else if c < 0x20 \<or> is_high_surrogate c \<or> is_low_surrogate c then UnicodeEscape c
      else [c])"

fun quote_units :: "js_string \<Rightarrow> js_string" where
  "quote_units [] = []"
| "quote_units [c] = quote_unit c"
| "quote_units (c # d # cs) =
     (if is_high_surrogate c \<and> is_low_surrogate d then c # d # quote_units cs
      else quote_unit c @ quote_units (d # cs))"

definition QuoteJSONString :: "js_string \<Rightarrow> js_string" where
  "QuoteJSONString s = 0x22 # quote_units s @ [0x22]"

fun join :: "js_string list \<Rightarrow> js_string" where
  "join [] = []"
| "join [x] = x"
| "join (x # y # ys) = x @ 0x2C # join (y # ys)"

fun JSON_stringify :: "'n number_ops \<Rightarrow> 'n js_value \<Rightarrow> js_string" where
  "JSON_stringify ops JNull = str ''null''"
| "JSON_stringify ops (JBool b) = (if b then str ''true'' else str ''false'')"
| "JSON_stringify ops (JNumber n) = (if is_finite ops n then to_text ops n else str ''null'')"
| "JSON_stringify ops (JString s) = QuoteJSONString s"
| "JSON_stringify ops (JArray vs) = 0x5B # join (map (JSON_stringify ops) vs) @ [0x5D]"
| "JSON_stringify ops (JObject ps) =
     0x7B # join (map (\<lambda>p. QuoteJSONString (fst p) @ 0x3A # JSON_stringify ops (snd p)) ps)
       @ [0x7D]"

text \<open>The text of one property of an object, as the last equation above writes it.\<close>

definition member_text :: "'n number_ops \<Rightarrow> js_string \<times> 'n js_value \<Rightarrow> js_string" where
  "member_text ops p = QuoteJSONString (fst p) @ 0x3A # JSON_stringify ops (snd p)"

section \<open>JSON.parse\<close>

text \<open>
  \<^verbatim>\<open>JSON.parse(text)\<close> as a recursive-descent parser of the JSON grammar. White
  space is space, tab, line feed and carriage return. A string may hold any code unit
  from U+0020 on but the quotation mark and the backslash, and the escapes
  \<^verbatim>\<open>\" \\ \/ \b \f \n \r \t \uXXXX\<close>, the last with four hexadecimal digits of either
  case. A parser returns the value read and the text left, or \<open>None\<close> where
  \<^verbatim>\<open>JSON.parse\<close> throws a SyntaxError.
\<close>

definition is_ws :: "code_unit \<Rightarrow> bool" where
  "is_ws c \<longleftrightarrow> c = 0x20 \<or> c = 0x09 \<or> c = 0x0A \<or> c = 0x0D"

definition skip_ws :: "js_string \<Rightarrow> js_string" where
  "skip_ws s = dropWhile is_ws s"

definition is_digit :: "code_unit \<Rightarrow> bool" where
  "is_digit c \<longleftrightarrow> 0x30 \<le> c \<and> c \<le> 0x39"

definition hex_value :: "code_unit \<Rightarrow> nat option" where
  "hex_value c =
     (if 0x30 \<le> c \<and> c \<le> 0x39 then Some (unat c - 48)
      else if 0x61 \<le> c \<and> c \<le> 0x66 then Some (unat c - 87)
      else if 0x41 \<le> c \<and> c \<le> 0x46 then Some (unat c - 55)
      else None)"

definition hex4 :: "code_unit \<Rightarrow> code_unit \<Rightarrow> code_unit \<Rightarrow> code_unit \<Rightarrow> code_unit option" where
  "hex4 a b c d =
     (case (hex_value a, hex_value b, hex_value c, hex_value d) of
        (Some x, Some y, Some z, Some w) \<Rightarrow>
          Some (of_int (4096 * int x + 256 * int y + 16 * int z + int w))
      | _ \<Rightarrow> None)"

definition unescape :: "code_unit \<Rightarrow> code_unit option" where
  "unescape e =
     (if e = 0x22 then Some 0x22
      else if e = 0x5C then Some 0x5C
      else if e = 0x2F then Some 0x2F
      else if e = 0x62 then Some 0x08
      else if e = 0x66 then Some 0x0C
      else if e = 0x6E then Some 0x0A
      else if e = 0x72 then Some 0x0D
      else if e = 0x74 then Some 0x09
      else None)"

definition cons_fst :: "'a \<Rightarrow> ('a list \<times> 'b) option \<Rightarrow> ('a list \<times> 'b) option" where
  "cons_fst x r = (case r of None \<Rightarrow> None | Some (xs, rest) \<Rightarrow> Some (x # xs, rest))"

text \<open>The code units of a string after its opening quotation mark, up to the closing one.\<close>

fun parse_chars :: "js_string \<Rightarrow> (js_string \<times> js_string) option" where
  "parse_chars [] = None"
| "parse_chars (c # cs) =
     (if c = 0x22 then Some ([], cs)
      else if c = 0x5C then
        (case cs of
           [] \<Rightarrow> None
         | e # r \<Rightarrow>
             if e = 0x75 then
               (case r of
                  h1 # h2 # h3 # h4 # r' \<Rightarrow>
                    (case hex4 h1 h2 h3 h4 of
                       None \<Rightarrow> None
                     | Some ch \<Rightarrow> cons_fst ch (parse_chars r'))
                | _ \<Rightarrow> None)
             else
               (case unescape e of
                  None \<Rightarrow> None
                | Some ch \<Rightarrow> cons_fst ch (parse_chars r)))
      else if c < 0x20 then None
      else cons_fst c (parse_chars cs))"

text \<open>
  A number is an optional minus sign, then \<^verbatim>\<open>0\<close> or digits with no leading zero,
  then an optional fraction (a full stop and digits) and an optional exponent
  (\<^verbatim>\<open>e\<close> or \<^verbatim>\<open>E\<close>, an optional sign, digits). The parser takes the longest run of
  code units that can occur in a number, checks it against this grammar and hands it
  to the runtime's \<open>of_text\<close>. In a text that \<^verbatim>\<open>JSON.parse\<close> accepts a number is
  followed by white space, a comma, a closing bracket or the end of the text, none of
  which can occur in a number, so the run is the number.
\<close>

definition is_number_char :: "code_unit \<Rightarrow> bool" where
  "is_number_char c \<longleftrightarrow>
     is_digit c \<or> c = 0x2D \<or> c = 0x2B \<or> c = 0x2E \<or> c = 0x65 \<or> c = 0x45"

definition digits1 :: "js_string \<Rightarrow> bool" where
  "digits1 ds \<longleftrightarrow> ds \<noteq> [] \<and> list_all is_digit ds"

definition json_int :: "js_string \<Rightarrow> bool" where
  "json_int ds \<longleftrightarrow> ds = [0x30] \<or> (digits1 ds \<and> hd ds \<noteq> 0x30)"

definition json_exp :: "js_string \<Rightarrow> bool" where
  "json_exp r =
     (case r of
        [] \<Rightarrow> True
      | c # r1 \<Rightarrow>
          (c = 0x65 \<or> c = 0x45) \<and>
          (case r1 of
             [] \<Rightarrow> False
           | d # r2 \<Rightarrow> if d = 0x2B \<or> d = 0x2D then digits1 r2 else digits1 r1))"

definition json_frac_exp :: "js_string \<Rightarrow> bool" where
  "json_frac_exp r =
     (case r of
        [] \<Rightarrow> True
      | c # r1 \<Rightarrow>
          if c = 0x2E then takeWhile is_digit r1 \<noteq> [] \<and> json_exp (dropWhile is_digit r1)
          else json_exp r)"

definition json_number_token :: "js_string \<Rightarrow> bool" where
  "json_number_token t =
     (let u = (case t of [] \<Rightarrow> [] | c # r \<Rightarrow> if c = 0x2D then r else t)
      in json_int (takeWhile is_digit u) \<and> json_frac_exp (dropWhile is_digit u))"

definition parse_number :: "'n number_ops \<Rightarrow> js_string \<Rightarrow> ('n \<times> js_string) option" where
  "parse_number ops s =
     (let t = takeWhile is_number_char s in
      if json_number_token t then Some (of_text ops t, dropWhile is_number_char s) else None)"

definition parse_literal ::
    "js_string \<Rightarrow> 'n js_value \<Rightarrow> js_string \<Rightarrow> ('n js_value \<times> js_string) option" where
  "parse_literal w v s =
     (if take (length w) s = w then Some (v, drop (length w) s) else None)"

text \<open>
  \<^verbatim>\<open>JSON.parse\<close> adds the members of an object one by one (CreateDataProperty). A
  name met again keeps its place and takes the later value. A new name that is an
  array index (the decimal text of an integer below \<open>2^32 - 1\<close>, with no leading zero)
  is enumerated before every name that is not, and array indices in ascending order;
  every other new name goes last (OrdinaryOwnPropertyKeys).
\<close>

fun digits_value :: "int \<Rightarrow> js_string \<Rightarrow> int" where
  "digits_value acc [] = acc"
| "digits_value acc (d # ds) = digits_value (10 * acc + (uint d - 48)) ds"

definition is_array_index :: "js_string \<Rightarrow> bool" where
  "is_array_index k \<longleftrightarrow> json_int k \<and> digits_value 0 k < 4294967295"

definition comes_before :: "js_string \<Rightarrow> js_string \<Rightarrow> bool" where
  "comes_before k k' \<longleftrightarrow>
     is_array_index k \<and> (\<not> is_array_index k' \<or> digits_value 0 k < digits_value 0 k')"

fun insert_property ::
    "(js_string \<times> 'n js_value) list \<Rightarrow> js_string \<times> 'n js_value \<Rightarrow> (js_string \<times> 'n js_value) list" where
  "insert_property [] kv = [kv]"
| "insert_property (p # ps) kv =
     (if comes_before (fst kv) (fst p) then kv # p # ps else p # insert_property ps kv)"

definition CreateDataProperty ::
    "(js_string \<times> 'n js_value) list \<Rightarrow> js_string \<times> 'n js_value \<Rightarrow> (js_string \<times> 'n js_value) list" where
  "CreateDataProperty ps kv =
     (if fst kv \<in> fst ` set ps then map (\<lambda>p. if fst p = fst kv then kv else p) ps
      else insert_property ps kv)"

definition make_object :: "(js_string \<times> 'n js_value) list \<Rightarrow> 'n js_value" where
  "make_object ms = JObject (foldl CreateDataProperty [] ms)"

text \<open>
  A value, the elements of an array after its opening bracket, and the members of an
  object after its opening brace. After a value (and after a member's name)
  \<open>parse_elements\<close> and \<open>parse_members\<close> check that text was consumed. The checks are
  there for the termination proof, which bounds the recursion by the length of the
  text; every parser consumes at least one code unit when it succeeds
  (\<open>parse_consumes\<close> below), so they never fail, and the two functions satisfy the
  equations without them (\<open>parse_elements_grammar\<close>, \<open>parse_members_grammar\<close>).
\<close>

function parse_value :: "'n number_ops \<Rightarrow> js_string \<Rightarrow> ('n js_value \<times> js_string) option"
  and parse_elements :: "'n number_ops \<Rightarrow> js_string \<Rightarrow> ('n js_value list \<times> js_string) option"
  and parse_members :: "'n number_ops \<Rightarrow> js_string \<Rightarrow> ((js_string \<times> 'n js_value) list \<times> js_string) option"
where
  "parse_value ops s =
     (case skip_ws s of
        [] \<Rightarrow> None
      | c # r \<Rightarrow>
          if c = 0x6E then parse_literal (str ''ull'') JNull r
          else if c = 0x74 then parse_literal (str ''rue'') (JBool True) r
          else if c = 0x66 then parse_literal (str ''alse'') (JBool False) r
          else if c = 0x22 then map_option (\<lambda>(s', r'). (JString s', r')) (parse_chars r)
          else if c = 0x5B then
            (case skip_ws r of
               [] \<Rightarrow> None
             | d # r' \<Rightarrow>
                 if d = 0x5D then Some (JArray [], r')
                 else map_option (\<lambda>(vs, r''). (JArray vs, r'')) (parse_elements ops (d # r')))
          else if c = 0x7B then
            (case skip_ws r of
               [] \<Rightarrow> None
             | d # r' \<Rightarrow>
                 if d = 0x7D then Some (JObject [], r')
                 else map_option (\<lambda>(ms, r''). (make_object ms, r'')) (parse_members ops (d # r')))
          else map_option (\<lambda>(n, r'). (JNumber n, r')) (parse_number ops (c # r)))"
| "parse_elements ops s =
     (case parse_value ops s of
        None \<Rightarrow> None
      | Some (v, r) \<Rightarrow>
          if length r < length s then
            (case skip_ws r of
               [] \<Rightarrow> None
             | c # r' \<Rightarrow>
                 if c = 0x2C then cons_fst v (parse_elements ops r')
                 else if c = 0x5D then Some ([v], r')
                 else None)
          else None)"
| "parse_members ops s =
     (case skip_ws s of
        [] \<Rightarrow> None
      | q # r \<Rightarrow>
          if q = 0x22 then
            (case parse_chars r of
               None \<Rightarrow> None
             | Some (k, r1) \<Rightarrow>
                 if length r1 < length r then
                 (case skip_ws r1 of
                    [] \<Rightarrow> None
                  | col # r2 \<Rightarrow>
                      if col = 0x3A then
                        (case parse_value ops r2 of
                           None \<Rightarrow> None
                         | Some (v, r3) \<Rightarrow>
                             if length r3 < length r2 then
                               (case skip_ws r3 of
                                  [] \<Rightarrow> None
                                | c # r4 \<Rightarrow>
                                    if c = 0x2C then cons_fst (k, v) (parse_members ops r4)
                                    else if c = 0x7D then Some ([(k, v)], r4)
                                    else None)
                             else None)
                      else None)
                 else None)
          else None)"
  by pat_completeness auto

termination
proof -
  have len: "\<And>s c r. skip_ws s = c # r \<Longrightarrow> length r < length s"
  proof -
    fix s :: js_string and c r
    assume "skip_ws s = c # r"
    moreover have "length (skip_ws s) \<le> length s"
      by (simp add: skip_ws_def length_dropWhile_le)
    ultimately show "length r < length s" by simp
  qed
  show ?thesis
    by (relation "measure (\<lambda>x. case x of Inl (ops, s) \<Rightarrow> 2 * length s
                                    | Inr (Inl (ops, s)) \<Rightarrow> 2 * length s + 1
                                    | Inr (Inr (ops, s)) \<Rightarrow> 2 * length s + 1)")
      (auto dest!: len)
qed

declare parse_value.simps [simp del] parse_elements.simps [simp del] parse_members.simps [simp del]

text \<open>
  What the code can throw: the SQLite binding raises an error when a statement fails,
  \<^verbatim>\<open>JSON.parse\<close> raises a SyntaxError.
\<close>

datatype exn = SQLiteError | SyntaxError

text \<open>\<^verbatim>\<open>JSON.parse\<close> accepts one value with white space around it.\<close>

definition JSON_parse :: "'n number_ops \<Rightarrow> js_string \<Rightarrow> exn + 'n js_value" where
  "JSON_parse ops text =
     (case parse_value ops text of
        None \<Rightarrow> Inl SyntaxError
      | Some (v, r) \<Rightarrow> if skip_ws r = [] then Inr v else Inl SyntaxError)"

section \<open>Values that JSON gives back\<close>

text \<open>
  Inside an array or an object a value is followed by a comma or the closing bracket,
  and at the top level by the end of the text.
\<close>

definition delimited :: "js_string \<Rightarrow> bool" where
  "delimited rest \<longleftrightarrow>
     (case rest of [] \<Rightarrow> True | c # _ \<Rightarrow> c = 0x2C \<or> c = 0x5D \<or> c = 0x7D)"

text \<open>
  A number that \<^verbatim>\<open>JSON.stringify\<close> and \<^verbatim>\<open>JSON.parse\<close> give back: it is finite and
  the text the runtime writes for it is a JSON number that reads as the same number.
  For the numbers of JavaScript these are the finite numbers other than negative zero
  (which is written \<^verbatim>\<open>0\<close>).
\<close>

definition json_number :: "'n number_ops \<Rightarrow> 'n \<Rightarrow> bool" where
  "json_number ops n \<longleftrightarrow> is_finite ops n \<and> parse_number ops (to_text ops n) = Some (n, [])"

text \<open>
  A list of names is in the order of enumeration when no name occurs twice and no name
  stands after one that it comes before.
\<close>

fun ordered_keys :: "js_string list \<Rightarrow> bool" where
  "ordered_keys [] = True"
| "ordered_keys (k # ks) =
     (k \<notin> set ks \<and> list_all (\<lambda>k'. \<not> comes_before k' k) ks \<and> ordered_keys ks)"

text \<open>
  The values that \<^verbatim>\<open>JSON.stringify\<close> and \<^verbatim>\<open>JSON.parse\<close> give back: every number
  in them is a \<open>json_number\<close>. The condition on the properties of an object holds of
  every JavaScript object; it says that the list is one that denotes an object.
\<close>

fun well_formed :: "'n number_ops \<Rightarrow> 'n js_value \<Rightarrow> bool" where
  "well_formed ops JNull = True"
| "well_formed ops (JBool b) = True"
| "well_formed ops (JNumber n) = json_number ops n"
| "well_formed ops (JString s) = True"
| "well_formed ops (JArray vs) = list_all (well_formed ops) vs"
| "well_formed ops (JObject ps) =
     (ordered_keys (map fst ps) \<and> list_all (\<lambda>p. well_formed ops (snd p)) ps)"

section \<open>The SQLite table\<close>

text \<open>
  The table \<^verbatim>\<open>cache(key TEXT PRIMARY KEY, value TEXT, ttl INTEGER)\<close> that
  \<^verbatim>\<open>initializeSchema\<close> creates. The key is the primary key, so the table is a map
  from keys to rows; a row holds the two other columns of \<^verbatim>\<open>CacheSchema\<close>, each of
  which may be \<^verbatim>\<open>NULL\<close>. SQLite only compares keys, and they are kept as Isabelle
  strings; the value column holds a JavaScript string. Times are milliseconds since
  the epoch, as \<^verbatim>\<open>Date.now()\<close> counts them.
\<close>

record CacheSchema =
  value_col :: "js_string option"
  ttl_col :: "int option"

text \<open>
  The database handle \<^verbatim>\<open>this.cache\<close>. Every call into the SQLite binding
  (\<^verbatim>\<open>prepare\<close>, \<^verbatim>\<open>query.get\<close>, \<^verbatim>\<open>run\<close>) may throw: a locked or damaged file, an
  I/O error, a closed handle. \<open>faults\<close> lists the outcomes of the calls to come, \<open>True\<close>
  for a call that throws; once the list is used up every call succeeds. A statement
  that throws leaves the table as it was.
\<close>

record Database =
  cache :: "string \<rightharpoonup> CacheSchema"
  faults :: "bool list"

definition sqlite_call :: "Database \<Rightarrow> bool \<times> Database" where
  "sqlite_call db =
     (case faults db of
        [] \<Rightarrow> (False, db)
      | f # fs \<Rightarrow> (f, db\<lparr>faults := fs\<rparr>))"

text \<open>\<^verbatim>\<open>this.cache.prepare(sql)\<close>: compiles a statement.\<close>

definition prepare :: "Database \<Rightarrow> (exn + unit) \<times> Database" where
  "prepare db =
     (case sqlite_call db of
        (True, db') \<Rightarrow> (Inl SQLiteError, db')
      | (False, db') \<Rightarrow> (Inr (), db'))"

text \<open>
  \<^verbatim>\<open>query.get(key)\<close> for \<^verbatim>\<open>SELECT ... FROM cache WHERE key = ?\<close>: the row of the
  key, or \<^verbatim>\<open>null\<close> (\<open>None\<close>) when there is none, which is the type the source gives
  the result (\<^verbatim>\<open>CacheSchema | null\<close>).
\<close>

definition query_get :: "Database \<Rightarrow> string \<Rightarrow> (exn + CacheSchema option) \<times> Database" where
  "query_get db key =
     (case sqlite_call db of
        (True, db') \<Rightarrow> (Inl SQLiteError, db')
      | (False, db') \<Rightarrow> (Inr (cache db' key), db'))"

text \<open>\<^verbatim>\<open>run("INSERT OR REPLACE INTO cache VALUES (?, ?, ?)", [key, value, ttl])\<close>.\<close>

definition run_insert_or_replace ::
    "Database \<Rightarrow> string \<Rightarrow> js_string option \<Rightarrow> int option \<Rightarrow> (exn + unit) \<times> Database" where
  "run_insert_or_replace db key text expirationTime =
     (case sqlite_call db of
        (True, db') \<Rightarrow> (Inl SQLiteError, db')
      | (False, db') \<Rightarrow>
          (Inr (), db'\<lparr>cache := (cache db')(key \<mapsto> \<lparr>value_col = text, ttl_col = expirationTime\<rparr>)\<rparr>))"

text \<open>\<^verbatim>\<open>run("DELETE FROM cache WHERE key = ?", [key])\<close>.\<close>

definition run_delete :: "Database \<Rightarrow> string \<Rightarrow> (exn + unit) \<times> Database" where
  "run_delete db key =
     (case sqlite_call db of
        (True, db') \<Rightarrow> (Inl SQLiteError, db')
      | (False, db') \<Rightarrow> (Inr (), db'\<lparr>cache := (cache db')(key := None)\<rparr>))"

section \<open>The operations of BunCache\<close>

text \<open>
  Each method takes the database and returns what it returns, or the exception that
  leaves it, together with the database after the call. \<^verbatim>\<open>Date.now()\<close> is an
  argument, and so are the runtime's number operations \<open>ops\<close> where the method calls
  \<^verbatim>\<open>JSON.stringify\<close> or \<^verbatim>\<open>JSON.parse\<close>. A \<^verbatim>\<open>try\<close>/\<^verbatim>\<open>catch\<close> of the source is the
  case distinction on \<open>Inl\<close>.
\<close>

text \<open>\<^verbatim>\<open>delete(key)\<close>, lines 86 to 93.\<close>

definition delete :: "Database \<Rightarrow> string \<Rightarrow> (exn + bool) \<times> Database" where
  "delete db key =
     (case run_delete db key of
        (Inl e, db') \<Rightarrow> (Inr False, db')
      | (Inr u, db') \<Rightarrow> (Inr True, db'))"

text \<open>
  \<^verbatim>\<open>get(key)\<close>, lines 36 to 57. Nothing catches what \<^verbatim>\<open>prepare\<close> and
  \<^verbatim>\<open>query.get\<close> throw. The result of \<^verbatim>\<open>this.delete(key)\<close> is dropped.
\<close>

definition get ::
    "'n number_ops \<Rightarrow> Database \<Rightarrow> int \<Rightarrow> string \<Rightarrow> (exn + 'n js_value) \<times> Database" where
  "get ops db currentTime key =
     (case prepare db of
        (Inl e, db1) \<Rightarrow> (Inl e, db1)
      | (Inr query, db1) \<Rightarrow>
          (case query_get db1 key of
             (Inl e, db2) \<Rightarrow> (Inl e, db2)
           | (Inr None, db2) \<Rightarrow> (Inr JNull, db2)
           | (Inr (Some result), db2) \<Rightarrow>
               (case value_col result of
                  None \<Rightarrow> (Inr (JBool True), db2)
                | Some text \<Rightarrow>
                    if (case ttl_col result of None \<Rightarrow> True | Some t \<Rightarrow> t > currentTime) then
                      (case JSON_parse ops text of
                         Inl e \<Rightarrow> (Inr (JString text), db2)
                       | Inr v \<Rightarrow> (Inr v, db2))
                    else
                      (case delete db2 key of (deleted, db3) \<Rightarrow> (Inr JNull, db3)))))"

text \<open>
  \<^verbatim>\<open>put(key, value, ttl?)\<close>, lines 66 to 79; an absent \<^verbatim>\<open>ttl\<close> is \<open>None\<close>. On the
  values of \<open>js_value\<close> \<^verbatim>\<open>JSON.stringify\<close> neither throws nor returns
  \<^verbatim>\<open>undefined\<close>, so only \<^verbatim>\<open>run\<close> can reach the \<^verbatim>\<open>catch\<close>.
\<close>

definition put ::
    "'n number_ops \<Rightarrow> Database \<Rightarrow> int \<Rightarrow> string \<Rightarrow> 'n js_value \<Rightarrow> int option
       \<Rightarrow> (exn + bool) \<times> Database" where
  "put ops db now key v ttl =
     (let expirationTime = (case ttl of None \<Rightarrow> None | Some t \<Rightarrow> Some (now + t)) in
      case run_insert_or_replace db key
             (if truthy ops v then Some (JSON_stringify ops v) else None) expirationTime of
        (Inl e, db') \<Rightarrow> (Inr False, db')
      | (Inr u, db') \<Rightarrow> (Inr True, db'))"

text \<open>\<^verbatim>\<open>hasKey(key)\<close>, lines 100 to 107.\<close>

definition hasKey :: "Database \<Rightarrow> string \<Rightarrow> (exn + bool) \<times> Database" where
  "hasKey db key =
     (case prepare db of
        (Inl e, db1) \<Rightarrow> (Inr False, db1)
      | (Inr query, db1) \<Rightarrow>
          (case query_get db1 key of
             (Inl e, db2) \<Rightarrow> (Inr False, db2)
           | (Inr result, db2) \<Rightarrow> (Inr (result \<noteq> None), db2)))"

text \<open>A cache that has just been constructed over a working in-memory database.\<close>

definition new_cache :: Database where
  "new_cache = \<lparr>cache = Map.empty, faults = []\<rparr>"

section \<open>A runtime for the examples\<close>

text \<open>
  The theorems below hold for every runtime. The examples are run on a small one whose
  numbers are the integers and \<^verbatim>\<open>NaN\<close> (\<open>None\<close>): an integer is written in decimal,
  as \<^verbatim>\<open>Number.prototype.toString\<close> writes the integers of JavaScript below
  \<open>10^21\<close>, and a JSON number is read as the integer that its sign and leading digits write, which is the
  number itself when it has no fraction and no exponent. The examples hold no other
  numbers but \<^verbatim>\<open>NaN\<close>.
\<close>

definition digit_char :: "nat \<Rightarrow> code_unit" where
  "digit_char n = str ''0123456789'' ! n"

fun digits :: "nat \<Rightarrow> js_string" where
  "digits n = (if n < 10 then [digit_char n] else digits (n div 10) @ [digit_char (n mod 10)])"

declare digits.simps [simp del]

definition Number_toString :: "int \<Rightarrow> js_string" where
  "Number_toString n = (if n < 0 then 0x2D # digits (nat (- n)) else digits (nat n))"

definition integer_part :: "js_string \<Rightarrow> int" where
  "integer_part t =
     (case t of
        [] \<Rightarrow> 0
      | c # r \<Rightarrow>
          if c = 0x2D then - digits_value 0 (takeWhile is_digit r)
          else digits_value 0 (takeWhile is_digit t))"

definition example_numbers :: "int option number_ops" where
  "example_numbers =
     \<lparr>is_finite = (\<lambda>n. n \<noteq> None),
      is_zero_or_NaN = (\<lambda>n. n = None \<or> n = Some 0),
      to_text = (\<lambda>n. case n of None \<Rightarrow> str ''NaN'' | Some i \<Rightarrow> Number_toString i),
      of_text = (\<lambda>t. Some (integer_part t))\<rparr>"

section \<open>JSON.parse reads back what JSON.stringify writes\<close>

subsection \<open>Strings\<close>

text \<open>
  A quoted string is read back code unit by code unit: an escaped code unit by its
  escape, a surrogate pair and every other code unit as itself.
\<close>

lemma hex_digit_cases:
  assumes "n < 16"
  shows "hex_value (hex_digit n) = Some n"
proof -
  from assms have "n \<in> {0, 1, 2, 3, 4, 5, 6, 7, 8, 9, 10, 11, 12, 13, 14, 15}"
    by simp arith
  then show ?thesis
    by (elim insertE emptyE) (simp_all add: hex_value_def hex_digit_def str_def)
qed

lemma nibbles:
  fixes n :: int
  assumes "0 \<le> n"
  shows "4096 * (n div 4096) + 256 * (n div 256 mod 16) + 16 * (n div 16 mod 16) + n mod 16 = n"
proof -
  have a: "n = 16 * (n div 16) + n mod 16" by simp
  have b: "n div 16 = 16 * (n div 256) + n div 16 mod 16"
    using div_mult_mod_eq [of "n div 16" 16] by (simp add: zdiv_zmult2_eq [symmetric])
  have c: "n div 256 = 16 * (n div 4096) + n div 256 mod 16"
    using div_mult_mod_eq [of "n div 256" 16] by (simp add: zdiv_zmult2_eq [symmetric])
  from a b c show ?thesis by linarith
qed

lemma uint_code_unit: "uint (c :: code_unit) < 65536"
  using uint_bounded [of c] by simp

lemma hex4_UnicodeEscape:
  "hex4 (hex_digit (nat (uint c div 4096))) (hex_digit (nat (uint c div 256 mod 16)))
        (hex_digit (nat (uint c div 16 mod 16))) (hex_digit (nat (uint c mod 16))) = Some c"
proof -
  have "uint c div 4096 < 16"
    using uint_code_unit [of c] by simp
  moreover have p: "0 \<le> uint c div 4096"
    using uint_nonnegative [of c] by (simp add: pos_imp_zdiv_nonneg_iff)
  ultimately have h: "nat (uint c div 4096) < 16" by simp
  have v: "int (nat (uint c div 4096)) = uint c div 4096"
    "int (nat (uint c div 256 mod 16)) = uint c div 256 mod 16"
    "int (nat (uint c div 16 mod 16)) = uint c div 16 mod 16"
    "int (nat (uint c mod 16)) = uint c mod 16"
    using p by simp_all
  have l: "nat (uint c div 256 mod 16) < 16" "nat (uint c div 16 mod 16) < 16"
    "nat (uint c mod 16) < 16"
    by simp_all
  show ?thesis
    unfolding hex4_def hex_digit_cases [OF h] hex_digit_cases [OF l(1)]
      hex_digit_cases [OF l(2)] hex_digit_cases [OF l(3)]
    by (simp only: v nibbles [OF uint_nonnegative] prod.case option.case word_of_int_uint)
qed

lemma parse_chars_UnicodeEscape:
  "parse_chars (UnicodeEscape c @ s) = cons_fst c (parse_chars s)"
  by (simp add: UnicodeEscape_def hex4_UnicodeEscape)

lemma surrogate_not_special:
  assumes "is_high_surrogate c \<or> is_low_surrogate c"
  shows "c \<noteq> 0x22" "c \<noteq> 0x5C" "\<not> c < 0x20"
proof -
  from assms have "0xD800 \<le> c"
    by (auto simp: is_high_surrogate_def is_low_surrogate_def elim: order_trans [rotated])
  moreover have "(0x5D :: code_unit) \<le> 0xD800" by simp
  ultimately have "0x5D \<le> c" by (rule order_trans [rotated])
  then show "c \<noteq> 0x22" "c \<noteq> 0x5C" "\<not> c < 0x20"
    by (auto dest: order.strict_trans1)
qed

lemma parse_chars_quote_unit:
  "parse_chars (quote_unit c @ s) = cons_fst c (parse_chars s)"
proof -
  consider (b) "c = 0x08" | (t) "c = 0x09" | (n) "c = 0x0A" | (f) "c = 0x0C"
    | (r) "c = 0x0D" | (q) "c = 0x22" | (bs) "c = 0x5C"
    | (u) "c \<notin> {0x08, 0x09, 0x0A, 0x0C, 0x0D, 0x22, 0x5C}"
          "c < 0x20 \<or> is_high_surrogate c \<or> is_low_surrogate c"
    | (lit) "c \<notin> {0x08, 0x09, 0x0A, 0x0C, 0x0D, 0x22, 0x5C}"
          "\<not> (c < 0x20 \<or> is_high_surrogate c \<or> is_low_surrogate c)"
    by blast
  then show ?thesis
  proof cases
    case u
    then show ?thesis
      by (simp add: quote_unit_def parse_chars_UnicodeEscape)
  next
    case lit
    then show ?thesis by (simp add: quote_unit_def)
  qed (simp_all add: quote_unit_def unescape_def)
qed

lemma parse_chars_pair:
  assumes "is_high_surrogate c" "is_low_surrogate d"
  shows "parse_chars (c # d # s) = cons_fst c (cons_fst d (parse_chars s))"
  using surrogate_not_special [of c] surrogate_not_special [of d] assms by simp

lemma cons_fst_Some_eq: "cons_fst x (Some (xs, r)) = Some (x # xs, r)"
  by (simp add: cons_fst_def)

lemma parse_chars_quoted:
  "parse_chars (quote_units s @ 0x22 # rest) = Some (s, rest)"
proof (induction s rule: quote_units.induct)
  case 1
  then show ?case by simp
next
  case (2 c)
  have "parse_chars (quote_unit c @ 0x22 # rest) = cons_fst c (parse_chars (0x22 # rest))"
    by (rule parse_chars_quote_unit)
  then show ?case by (simp add: cons_fst_Some_eq)
next
  case (3 c d cs)
  show ?case
  proof (cases "is_high_surrogate c \<and> is_low_surrogate d")
    case True
    then have q: "quote_units (c # d # cs) = c # d # quote_units cs" by simp
    from True 3(1) have "parse_chars (quote_units cs @ 0x22 # rest) = Some (cs, rest)" by simp
    with True show ?thesis
      unfolding q by (simp add: parse_chars_pair cons_fst_Some_eq del: parse_chars.simps)
  next
    case False
    then have q: "quote_units (c # d # cs) = quote_unit c @ quote_units (d # cs)" by auto
    from False 3(2) have "parse_chars (quote_units (d # cs) @ 0x22 # rest) = Some (d # cs, rest)"
      by simp
    then show ?thesis
      unfolding q by (simp add: parse_chars_quote_unit cons_fst_Some_eq del: parse_chars.simps)
  qed
qed

subsection \<open>Numbers\<close>

text \<open>
  A number that is read from the whole of its text is read from that text followed by
  a delimiter as well.
\<close>

lemma json_number_token_not_Nil: "json_number_token t \<Longrightarrow> t \<noteq> []"
  by (auto simp: json_number_token_def json_int_def digits1_def)

lemma is_number_char_not_special:
  assumes "is_number_char c"
  shows "\<not> is_ws c" "c \<noteq> 0x6E" "c \<noteq> 0x74" "c \<noteq> 0x66" "c \<noteq> 0x22"
    "c \<noteq> 0x5B" "c \<noteq> 0x7B" "c \<noteq> 0x5D" "c \<noteq> 0x7D" "c \<noteq> 0x2C"
  using assms by (auto simp: is_number_char_def is_digit_def is_ws_def)

lemma delimited_not_number_char: "delimited rest \<Longrightarrow> rest = [] \<or> \<not> is_number_char (hd rest)"
  by (auto simp: delimited_def is_number_char_def is_digit_def split: list.splits)

lemma parse_number_whole:
  assumes "parse_number ops t = Some (n, [])"
  shows "json_number_token t" "of_text ops t = n" "\<forall>c \<in> set t. is_number_char c"
proof -
  from assms have tok: "json_number_token (takeWhile is_number_char t)"
    and val: "of_text ops (takeWhile is_number_char t) = n"
    and rest: "dropWhile is_number_char t = []"
    by (auto simp: parse_number_def Let_def split: if_splits)
  from rest show all: "\<forall>c \<in> set t. is_number_char c"
    by (simp add: dropWhile_eq_Nil_conv)
  then have "takeWhile is_number_char t = t" by (simp add: takeWhile_eq_all_conv)
  with tok val show "json_number_token t" "of_text ops t = n" by simp_all
qed

lemma parse_number_extend:
  assumes "parse_number ops t = Some (n, [])" and "delimited rest"
  shows "parse_number ops (t @ rest) = Some (n, rest)"
proof -
  note w = parse_number_whole [OF assms(1)]
  from delimited_not_number_char [OF assms(2)]
  have r: "takeWhile is_number_char rest = []" "dropWhile is_number_char rest = rest"
    by (cases rest; simp)+
  from w(3) have "takeWhile is_number_char (t @ rest) = t" "dropWhile is_number_char (t @ rest) = rest"
    by (simp_all add: takeWhile_append2 dropWhile_append2 r)
  with w(1,2) show ?thesis by (simp add: parse_number_def)
qed

lemma parse_number_first:
  assumes "parse_number ops t = Some (n, [])"
  shows "\<exists>c r. t = c # r \<and> is_number_char c"
proof -
  note w = parse_number_whole [OF assms]
  from json_number_token_not_Nil [OF w(1)] obtain c r where "t = c # r" by (cases t) auto
  with w(3) show ?thesis by simp
qed

section \<open>A parser consumes what it reads\<close>

text \<open>
  Each of the three parsers returns a text shorter than the one it was given. The
  length checks in \<open>parse_elements\<close> and \<open>parse_members\<close> therefore always hold.
\<close>

lemma parse_number_length: "parse_number ops s = Some (n, r) \<Longrightarrow> length r < length s"
proof -
  assume "parse_number ops s = Some (n, r)"
  then have tok: "json_number_token (takeWhile is_number_char s)" and r: "r = dropWhile is_number_char s"
    by (auto simp: parse_number_def Let_def split: if_splits)
  from json_number_token_not_Nil [OF tok] have "0 < length (takeWhile is_number_char s)"
    by (simp del: takeWhile_eq_Nil_iff)
  moreover have "length (takeWhile is_number_char s) + length (dropWhile is_number_char s) = length s"
    by (metis length_append takeWhile_dropWhile_id)
  ultimately have "length (dropWhile is_number_char s) < length s" by linarith
  with r show ?thesis by simp
qed

lemma parse_literal_length: "parse_literal w v s = Some (u, r) \<Longrightarrow> length r \<le> length s"
  by (auto simp: parse_literal_def split: if_splits)

lemma skip_ws_Cons_length: "skip_ws s = c # r \<Longrightarrow> length r < length s"
  using length_dropWhile_le [of is_ws s] by (simp add: skip_ws_def)

lemma cons_fst_Some: "cons_fst x p = Some (ys, r) \<Longrightarrow> \<exists>xs. p = Some (xs, r)"
  by (auto simp: cons_fst_def split: option.splits)

lemma parse_chars_length:
  "parse_chars s = Some (k, r) \<Longrightarrow> length r < length s"
proof (induction s arbitrary: k r rule: parse_chars.induct)
  case 1
  then show ?case by simp
next
  case (2 c cs)
  then show ?case
    by (fastforce simp: cons_fst_def split: if_splits list.splits option.splits)
qed

lemma parse_consumes:
  "\<forall>v r. parse_value ops s = Some (v, r) \<longrightarrow> length r < length s"
  "\<forall>vs r. parse_elements ops s1 = Some (vs, r) \<longrightarrow> length r < length s1"
  "\<forall>ms r. parse_members ops s2 = Some (ms, r) \<longrightarrow> length r < length s2"
proof (induction ops s and ops s1 and ops s2 rule: parse_value_parse_elements_parse_members.induct)
  case (1 ops s)
  show ?case
  proof (intro allI impI)
    fix v r
    assume pv: "parse_value ops s = Some (v, r)"
    show "length r < length s"
    proof (cases "skip_ws s")
      case Nil
      with pv show ?thesis by (subst (asm) parse_value.simps) simp
    next
      case (Cons c r0)
      note l0 = skip_ws_Cons_length [OF Cons]
      consider (n) "c = 0x6E" | (t) "c = 0x74" | (f) "c = 0x66"
        | (str) "c = 0x22" | (arr) "c = 0x5B" | (obj) "c = 0x7B"
        | (num) "c \<noteq> 0x6E" "c \<noteq> 0x74" "c \<noteq> 0x66" "c \<noteq> 0x22"
                "c \<noteq> 0x5B" "c \<noteq> 0x7B"
        by blast
      then show ?thesis
      proof cases
        case n
        with pv Cons have "parse_literal (str ''ull'') JNull r0 = Some (v, r)"
          by (subst (asm) parse_value.simps) simp
        from parse_literal_length [OF this] l0 show ?thesis by simp
      next
        case t
        with pv Cons have "parse_literal (str ''rue'') (JBool True) r0 = Some (v, r)"
          by (subst (asm) parse_value.simps) simp
        from parse_literal_length [OF this] l0 show ?thesis by simp
      next
        case f
        with pv Cons have "parse_literal (str ''alse'') (JBool False) r0 = Some (v, r)"
          by (subst (asm) parse_value.simps) simp
        from parse_literal_length [OF this] l0 show ?thesis by simp
      next
        case str
        with pv Cons obtain k where "parse_chars r0 = Some (k, r)"
          by (subst (asm) parse_value.simps) auto
        from parse_chars_length [OF this] l0 show ?thesis by simp
      next
        case arr
        with pv Cons have *: "(case skip_ws r0 of [] \<Rightarrow> None
            | d # r' \<Rightarrow> if d = 0x5D then Some (JArray [], r')
                else map_option (\<lambda>(vs, r''). (JArray vs, r'')) (parse_elements ops (d # r'))) = Some (v, r)"
          by (subst (asm) parse_value.simps) simp
        then obtain d r' where sk: "skip_ws r0 = d # r'" by (auto split: list.splits)
        note l1 = skip_ws_Cons_length [OF sk]
        show ?thesis
        proof (cases "d = 0x5D")
          case True
          with * sk have "r = r'" by simp
          with l0 l1 show ?thesis by simp
        next
          case False
          with * sk obtain vs where "parse_elements ops (d # r') = Some (vs, r)" by auto
          moreover have "\<forall>vs r. parse_elements ops (d # r') = Some (vs, r) \<longrightarrow> length r < length (d # r')"
            using "1.IH"(1) [OF Cons _ _ _ _ arr sk False] arr by simp
          ultimately have "length r < length (d # r')" by blast
          with l0 l1 show ?thesis by simp
        qed
      next
        case obj
        with pv Cons have *: "(case skip_ws r0 of [] \<Rightarrow> None
            | d # r' \<Rightarrow> if d = 0x7D then Some (JObject [], r')
                else map_option (\<lambda>(ms, r''). (make_object ms, r'')) (parse_members ops (d # r'))) = Some (v, r)"
          by (subst (asm) parse_value.simps) simp
        then obtain d r' where sk: "skip_ws r0 = d # r'" by (auto split: list.splits)
        note l1 = skip_ws_Cons_length [OF sk]
        show ?thesis
        proof (cases "d = 0x7D")
          case True
          with * sk have "r = r'" by simp
          with l0 l1 show ?thesis by simp
        next
          case False
          with * sk obtain ms where "parse_members ops (d # r') = Some (ms, r)" by auto
          moreover have "\<forall>ms r. parse_members ops (d # r') = Some (ms, r) \<longrightarrow> length r < length (d # r')"
            using "1.IH"(2) [OF Cons _ _ _ _ _ obj sk False] obj by simp
          ultimately have "length r < length (d # r')" by blast
          with l0 l1 show ?thesis by simp
        qed
      next
        case num
        with pv Cons obtain k where "parse_number ops (c # r0) = Some (k, r)"
          by (subst (asm) parse_value.simps) auto
        from parse_number_length [OF this] l0 show ?thesis by simp
      qed
    qed
  qed
next
  case (2 ops s)
  show ?case
  proof (intro allI impI)
    fix vs r
    assume pe: "parse_elements ops s = Some (vs, r)"
    then obtain v r1 where pv: "parse_value ops s = Some (v, r1)"
      by (subst (asm) parse_elements.simps) (auto split: option.splits)
    with "2.IH"(1) have l1: "length r1 < length s" by blast
    from pe pv l1 have *: "(case skip_ws r1 of [] \<Rightarrow> None
        | c # r' \<Rightarrow> if c = 0x2C then cons_fst v (parse_elements ops r')
            else if c = 0x5D then Some ([v], r') else None) = Some (vs, r)"
      by (subst (asm) parse_elements.simps) simp
    then obtain c r' where sk: "skip_ws r1 = c # r'" by (auto split: list.splits)
    note l2 = skip_ws_Cons_length [OF sk]
    show "length r < length s"
    proof (cases "c = 0x2C")
      case True
      with * sk have "cons_fst v (parse_elements ops r') = Some (vs, r)" by simp
      from cons_fst_Some [OF this] obtain ws where "parse_elements ops r' = Some (ws, r)" by blast
      with "2.IH"(2) [OF pv refl l1 sk True] have "length r < length r'" by blast
      with l1 l2 show ?thesis by simp
    next
      case False
      with * sk have "r = r'" by (auto split: if_splits)
      with l1 l2 show ?thesis by simp
    qed
  qed
next
  case (3 ops s)
  show ?case
  proof (intro allI impI)
    fix ms r
    assume pm: "parse_members ops s = Some (ms, r)"
    then obtain q r0 where sk0: "skip_ws s = q # r0"
      by (subst (asm) parse_members.simps) (auto split: list.splits)
    note l0 = skip_ws_Cons_length [OF sk0]
    from pm sk0 have q: "q = 0x22"
      by (subst (asm) parse_members.simps) (auto split: if_splits)
    from pm sk0 q obtain k r1 where pc: "parse_chars r0 = Some (k, r1)"
      by (subst (asm) parse_members.simps) (auto split: option.splits)
    note l1 = parse_chars_length [OF pc]
    from pm sk0 q pc l1 obtain col r2 where sk1: "skip_ws r1 = col # r2"
      by (subst (asm) parse_members.simps) (auto split: list.splits)
    note l2 = skip_ws_Cons_length [OF sk1]
    from pm sk0 q pc l1 sk1 have col: "col = 0x3A"
      by (subst (asm) parse_members.simps) (auto split: if_splits)
    from pm sk0 q pc l1 sk1 col obtain v r3 where pv: "parse_value ops r2 = Some (v, r3)"
      by (subst (asm) parse_members.simps) (auto split: option.splits)
    have "\<forall>v r. parse_value ops r2 = Some (v, r) \<longrightarrow> length r < length r2"
      using "3.IH"(1) [OF sk0 q pc refl l1 sk1 col] .
    with pv have l3: "length r3 < length r2" by blast
    from pm sk0 q pc l1 sk1 col pv l3 have *: "(case skip_ws r3 of [] \<Rightarrow> None
        | c # r4 \<Rightarrow> if c = 0x2C then cons_fst (k, v) (parse_members ops r4)
            else if c = 0x7D then Some ([(k, v)], r4) else None) = Some (ms, r)"
      by (subst (asm) parse_members.simps) simp
    then obtain c r4 where sk3: "skip_ws r3 = c # r4" by (auto split: list.splits)
    note l4 = skip_ws_Cons_length [OF sk3]
    show "length r < length s"
    proof (cases "c = 0x2C")
      case True
      with * sk3 have "cons_fst (k, v) (parse_members ops r4) = Some (ms, r)" by simp
      from cons_fst_Some [OF this] obtain ws where "parse_members ops r4 = Some (ws, r)" by blast
      with "3.IH"(2) [OF sk0 q pc refl l1 sk1 col pv refl l3 sk3 True] have "length r < length r4"
        by blast
      with l0 l1 l2 l3 l4 show ?thesis by simp
    next
      case False
      with * sk3 have "r = r4" by (auto split: if_splits)
      with l0 l1 l2 l3 l4 show ?thesis by simp
    qed
  qed
qed

lemma parse_elements_grammar:
  "parse_elements ops s =
     (case parse_value ops s of
        None \<Rightarrow> None
      | Some (v, r) \<Rightarrow>
          (case skip_ws r of
             [] \<Rightarrow> None
           | c # r' \<Rightarrow>
               if c = 0x2C then cons_fst v (parse_elements ops r')
               else if c = 0x5D then Some ([v], r')
               else None))"
  using parse_consumes(1) [of ops s]
  by (subst parse_elements.simps) (auto split: option.splits)

lemma parse_members_grammar:
  "parse_members ops s =
     (case skip_ws s of
        [] \<Rightarrow> None
      | q # r \<Rightarrow>
          if q = 0x22 then
            (case parse_chars r of
               None \<Rightarrow> None
             | Some (k, r1) \<Rightarrow>
                 (case skip_ws r1 of
                    [] \<Rightarrow> None
                  | col # r2 \<Rightarrow>
                      if col = 0x3A then
                        (case parse_value ops r2 of
                           None \<Rightarrow> None
                         | Some (v, r3) \<Rightarrow>
                             (case skip_ws r3 of
                                [] \<Rightarrow> None
                              | c # r4 \<Rightarrow>
                                  if c = 0x2C then cons_fst (k, v) (parse_members ops r4)
                                  else if c = 0x7D then Some ([(k, v)], r4)
                                  else None))
                      else None))
          else None)"
proof -
  have "\<And>r2 v r3. parse_value ops r2 = Some (v, r3) \<Longrightarrow> length r3 < length r2"
    using parse_consumes(1) by blast
  then show ?thesis
    by (subst parse_members.simps)
      (auto split: list.splits option.splits dest: parse_chars_length)
qed

section \<open>The round trip of a value\<close>

lemma skip_ws_not_ws: "\<not> is_ws c \<Longrightarrow> skip_ws (c # r) = c # r"
  by (simp add: skip_ws_def)

lemma delimited_simps:
  "delimited (0x2C # r)" "delimited (0x5D # r)" "delimited (0x7D # r)" "delimited []"
  by (simp_all add: delimited_def)

lemma parse_value_null: "parse_value ops (str ''null'' @ rest) = Some (JNull, rest)"
  by (subst parse_value.simps) (simp add: skip_ws_def is_ws_def parse_literal_def str_def)

lemma parse_value_true: "parse_value ops (str ''true'' @ rest) = Some (JBool True, rest)"
  by (subst parse_value.simps) (simp add: skip_ws_def is_ws_def parse_literal_def str_def)

lemma parse_value_false: "parse_value ops (str ''false'' @ rest) = Some (JBool False, rest)"
  by (subst parse_value.simps) (simp add: skip_ws_def is_ws_def parse_literal_def str_def)

lemma parse_value_number:
  assumes "json_number ops n" and "delimited rest"
  shows "parse_value ops (to_text ops n @ rest) = Some (JNumber n, rest)"
proof -
  from assms(1) have p: "parse_number ops (to_text ops n) = Some (n, [])"
    by (simp add: json_number_def)
  obtain c r where cr: "to_text ops n = c # r" "is_number_char c"
    using parse_number_first [OF p] by blast
  have "parse_number ops (c # r @ rest) = Some (n, rest)"
    using parse_number_extend [OF p assms(2)] cr(1) by simp
  then show ?thesis
    using is_number_char_not_special [OF cr(2)]
    by (subst parse_value.simps) (simp add: cr(1) skip_ws_not_ws)
qed

lemma parse_value_string:
  "parse_value ops (QuoteJSONString s @ rest) = Some (JString s, rest)"
  by (subst parse_value.simps)
    (simp add: QuoteJSONString_def skip_ws_def is_ws_def parse_chars_quoted)

lemma JSON_stringify_first:
  assumes "well_formed ops v"
  shows "\<exists>c r. JSON_stringify ops v = c # r \<and> \<not> is_ws c \<and> c \<noteq> 0x5D \<and> c \<noteq> 0x7D"
proof (cases v)
  case (JNumber n)
  with assms have j: "json_number ops n" by simp
  then have p: "parse_number ops (to_text ops n) = Some (n, [])" by (simp add: json_number_def)
  obtain c r where cr: "to_text ops n = c # r" "is_number_char c"
    using parse_number_first [OF p] by blast
  from is_number_char_not_special [OF cr(2)] have "\<not> is_ws c" "c \<noteq> 0x5D" "c \<noteq> 0x7D"
    by blast+
  with cr(1) JNumber j show ?thesis by (simp add: json_number_def)
next
  case (JBool b)
  then show ?thesis by (cases b) (simp_all add: is_ws_def str_def)
qed (simp_all add: is_ws_def QuoteJSONString_def str_def)

lemma parse_elements_one:
  assumes "parse_value ops (x @ 0x5D # rest) = Some (v, 0x5D # rest)"
  shows "parse_elements ops (x @ 0x5D # rest) = Some ([v], rest)"
  using assms
  by (subst parse_elements_grammar) (simp add: skip_ws_def is_ws_def)

lemma parse_elements_more:
  assumes "parse_value ops (x @ 0x2C # tail) = Some (v, 0x2C # tail)"
  shows "parse_elements ops (x @ 0x2C # tail) = cons_fst v (parse_elements ops tail)"
  using assms
  by (subst parse_elements_grammar) (simp add: skip_ws_def is_ws_def)

lemma parse_elements_join:
  assumes "vs \<noteq> []"
    and "\<And>v rest. v \<in> set vs \<Longrightarrow> delimited rest \<Longrightarrow>
           parse_value ops (JSON_stringify ops v @ rest) = Some (v, rest)"
  shows "parse_elements ops (join (map (JSON_stringify ops) vs) @ 0x5D # rest) = Some (vs, rest)"
  using assms
proof (induction vs rule: list_nonempty_induct)
  case (single v)
  then show ?case by (simp add: parse_elements_one delimited_simps)
next
  case (cons v vs)
  obtain w ws where vs: "vs = w # ws" using cons.hyps by (cases vs) auto
  have "parse_elements ops (join (map (JSON_stringify ops) vs) @ 0x5D # rest) = Some (vs, rest)"
    using cons.IH cons.prems by simp
  moreover have "parse_value ops (JSON_stringify ops v @ 0x2C # join (map (JSON_stringify ops) vs) @ 0x5D # rest)
      = Some (v, 0x2C # join (map (JSON_stringify ops) vs) @ 0x5D # rest)"
    using cons.prems by (simp add: delimited_simps)
  ultimately show ?case
    using parse_elements_more [of ops "JSON_stringify ops v" "join (map (JSON_stringify ops) vs) @ 0x5D # rest" v]
    by (simp add: vs cons_fst_def)
qed

lemma parse_value_array:
  assumes "\<And>v rest. v \<in> set vs \<Longrightarrow> delimited rest \<Longrightarrow>
           parse_value ops (JSON_stringify ops v @ rest) = Some (v, rest)"
    and "\<And>v. v \<in> set vs \<Longrightarrow> well_formed ops v"
  shows "parse_value ops (JSON_stringify ops (JArray vs) @ rest) = Some (JArray vs, rest)"
proof (cases vs)
  case Nil
  then show ?thesis
    by (subst parse_value.simps) (simp add: skip_ws_def is_ws_def)
next
  case (Cons w ws)
  let ?body = "join (map (JSON_stringify ops) vs) @ 0x5D # rest"
  have "well_formed ops w" using assms(2) Cons by simp
  then obtain c r where cr: "JSON_stringify ops w = c # r" "\<not> is_ws c" "c \<noteq> 0x5D"
    using JSON_stringify_first [of ops w] by blast
  then obtain r' where body: "?body = c # r'"
    using Cons by (cases ws) auto
  have "parse_elements ops ?body = Some (vs, rest)"
  proof (rule parse_elements_join)
    show "vs \<noteq> []" using Cons by simp
  next
    fix v rest'
    assume "v \<in> set vs" "delimited rest'"
    then show "parse_value ops (JSON_stringify ops v @ rest') = Some (v, rest')" by (rule assms(1))
  qed
  then have "parse_elements ops (c # r') = Some (vs, rest)"
    using body by simp
  then have "parse_value ops (0x5B # c # r') = Some (JArray vs, rest)"
    using cr(2,3) by (subst parse_value.simps) (simp add: skip_ws_def is_ws_def)
  then show ?thesis using body by simp
qed

lemma parse_members_one:
  assumes "parse_value ops (JSON_stringify ops v @ 0x7D # rest) = Some (v, 0x7D # rest)"
  shows "parse_members ops (member_text ops (k, v) @ 0x7D # rest) = Some ([(k, v)], rest)"
  using assms
  by (subst parse_members_grammar)
    (simp add: member_text_def QuoteJSONString_def skip_ws_def is_ws_def parse_chars_quoted)

lemma parse_members_more:
  assumes "parse_value ops (JSON_stringify ops v @ 0x2C # tail) = Some (v, 0x2C # tail)"
  shows "parse_members ops (member_text ops (k, v) @ 0x2C # tail)
           = cons_fst (k, v) (parse_members ops tail)"
  using assms
  by (subst parse_members_grammar)
    (simp add: member_text_def QuoteJSONString_def skip_ws_def is_ws_def parse_chars_quoted)

lemma parse_members_join:
  assumes "ps \<noteq> []"
    and "\<And>p rest. p \<in> set ps \<Longrightarrow> delimited rest \<Longrightarrow>
           parse_value ops (JSON_stringify ops (snd p) @ rest) = Some (snd p, rest)"
  shows "parse_members ops (join (map (member_text ops) ps) @ 0x7D # rest) = Some (ps, rest)"
  using assms
proof (induction ps rule: list_nonempty_induct)
  case (single p)
  then show ?case
    using parse_members_one [of ops "snd p" rest "fst p"] by (simp add: delimited_simps)
next
  case (cons p ps)
  obtain q qs where ps: "ps = q # qs" using cons.hyps by (cases ps) auto
  have "parse_members ops (join (map (member_text ops) ps) @ 0x7D # rest) = Some (ps, rest)"
    using cons.IH cons.prems by simp
  moreover have "parse_value ops (JSON_stringify ops (snd p) @ 0x2C # join (map (member_text ops) ps) @ 0x7D # rest)
      = Some (snd p, 0x2C # join (map (member_text ops) ps) @ 0x7D # rest)"
    using cons.prems by (simp add: delimited_simps)
  ultimately show ?case
    using parse_members_more [of ops "snd p" "join (map (member_text ops) ps) @ 0x7D # rest" "fst p"]
    by (simp add: ps cons_fst_def)
qed

lemma ordered_keys_prefix: "ordered_keys (xs @ ys) \<Longrightarrow> ordered_keys xs"
  by (induction xs) (auto simp: list_all_iff)

lemma ordered_keys_last:
  "ordered_keys (ks @ [k]) \<Longrightarrow> k \<notin> set ks \<and> (\<forall>k0 \<in> set ks. \<not> comes_before k k0)"
  by (induction ks) (auto simp: list_all_iff)

lemma insert_property_last:
  "\<forall>p \<in> set ps. \<not> comes_before (fst kv) (fst p) \<Longrightarrow> insert_property ps kv = ps @ [kv]"
  by (induction ps) auto

lemma CreateDataProperty_last:
  assumes "ordered_keys (map fst (ps @ [kv]))"
  shows "CreateDataProperty ps kv = ps @ [kv]"
proof -
  from assms have "ordered_keys (map fst ps @ [fst kv])" by simp
  from ordered_keys_last [OF this]
  have fresh: "fst kv \<notin> fst ` set ps" and last: "\<forall>p \<in> set ps. \<not> comes_before (fst kv) (fst p)"
    by auto
  from fresh insert_property_last [OF last] show ?thesis
    by (simp add: CreateDataProperty_def)
qed

lemma foldl_CreateDataProperty_ordered:
  "ordered_keys (map fst (acc @ ms)) \<Longrightarrow> foldl CreateDataProperty acc ms = acc @ ms"
proof (induction ms arbitrary: acc)
  case Nil
  then show ?case by simp
next
  case (Cons m ms)
  from Cons.prems have all: "ordered_keys (map fst ((acc @ [m]) @ ms))" by simp
  then have "ordered_keys (map fst (acc @ [m]))"
    using ordered_keys_prefix [of "map fst (acc @ [m])" "map fst ms"] by simp
  from CreateDataProperty_last [OF this] Cons.IH [OF all] show ?case by simp
qed

lemma make_object_ordered: "ordered_keys (map fst ms) \<Longrightarrow> make_object ms = JObject ms"
  using foldl_CreateDataProperty_ordered [of "[]" ms] by (simp add: make_object_def)

lemma parse_value_object:
  assumes "ordered_keys (map fst ps)"
    and "\<And>p rest. p \<in> set ps \<Longrightarrow> delimited rest \<Longrightarrow>
           parse_value ops (JSON_stringify ops (snd p) @ rest) = Some (snd p, rest)"
  shows "parse_value ops (JSON_stringify ops (JObject ps) @ rest) = Some (JObject ps, rest)"
proof (cases ps)
  case Nil
  then show ?thesis
    by (subst parse_value.simps) (simp add: skip_ws_def is_ws_def)
next
  case (Cons q qs)
  let ?body = "join (map (member_text ops) ps) @ 0x7D # rest"
  obtain r' where body: "?body = 0x22 # r'"
    using Cons by (cases qs) (auto simp: member_text_def QuoteJSONString_def)
  have "parse_members ops ?body = Some (ps, rest)"
  proof (rule parse_members_join)
    show "ps \<noteq> []" using Cons by simp
  next
    fix p rest'
    assume "p \<in> set ps" "delimited rest'"
    then show "parse_value ops (JSON_stringify ops (snd p) @ rest') = Some (snd p, rest')"
      by (rule assms(2))
  qed
  then have "parse_members ops (0x22 # r') = Some (ps, rest)"
    using body by simp
  then have "parse_value ops (0x7B # 0x22 # r') = Some (JObject ps, rest)"
    by (subst parse_value.simps)
      (simp add: skip_ws_def is_ws_def make_object_ordered [OF assms(1)])
  moreover have "JSON_stringify ops (JObject ps) @ rest = 0x7B # ?body"
    by (simp add: member_text_def [abs_def])
  ultimately show ?thesis using body by simp
qed

lemma parse_value_stringify:
  "well_formed ops v \<Longrightarrow> delimited rest \<Longrightarrow>
   parse_value ops (JSON_stringify ops v @ rest) = Some (v, rest)"
proof (induction v arbitrary: rest)
  case JNull
  then show ?case using parse_value_null [of ops rest] by simp
next
  case (JBool b)
  then show ?case
    using parse_value_true [of ops rest] parse_value_false [of ops rest] by simp
next
  case (JNumber n)
  then show ?case using parse_value_number [of ops n rest] by (simp add: json_number_def)
next
  case (JString s)
  then show ?case using parse_value_string [of ops s rest] by simp
next
  case (JArray vs)
  show ?case
  proof (rule parse_value_array)
    fix v rest'
    assume "v \<in> set vs" "delimited rest'"
    with JArray show "parse_value ops (JSON_stringify ops v @ rest') = Some (v, rest')"
      by (simp add: list_all_iff)
  next
    fix v
    assume "v \<in> set vs"
    with JArray.prems show "well_formed ops v" by (simp add: list_all_iff)
  qed
next
  case (JObject ps)
  show ?case
  proof (rule parse_value_object)
    show "ordered_keys (map fst ps)" using JObject.prems by simp
  next
    fix p rest'
    assume p: "p \<in> set ps" "delimited rest'"
    then have "well_formed ops (snd p)" using JObject.prems by (simp add: list_all_iff)
    moreover have "snd p \<in> Basic_BNFs.snds p" by (cases p) simp
    ultimately show "parse_value ops (JSON_stringify ops (snd p) @ rest') = Some (snd p, rest')"
      using JObject.IH p by blast
  qed
qed

lemma JSON_roundtrip:
  "well_formed ops v \<Longrightarrow> JSON_parse ops (JSON_stringify ops v) = Inr v"
  using parse_value_stringify [of ops v "[]"]
  by (simp add: JSON_parse_def delimited_simps skip_ws_def)

subsection \<open>The numbers of the example runtime\<close>

lemma digit_char_cases:
  assumes "d < 10"
  shows "is_digit (digit_char d)" "uint (digit_char d) - 48 = int d" "digit_char d = 0x30 \<longleftrightarrow> d = 0"
proof -
  from assms have "d \<in> {0, 1, 2, 3, 4, 5, 6, 7, 8, 9}"
    by simp arith
  then show "is_digit (digit_char d)" "uint (digit_char d) - 48 = int d" "digit_char d = 0x30 \<longleftrightarrow> d = 0"
    by (elim insertE emptyE; simp add: is_digit_def digit_char_def str_def)+
qed

lemma digits_all_digit: "\<forall>c \<in> set (digits n). is_digit c"
proof (induction n rule: digits.induct)
  case (1 n)
  show ?case
  proof (cases "n < 10")
    case True
    then show ?thesis by (subst digits.simps) (simp add: digit_char_cases)
  next
    case False
    with 1 show ?thesis by (subst digits.simps) (simp add: digit_char_cases)
  qed
qed

lemma digits_not_Nil: "digits n \<noteq> []"
  by (subst digits.simps) simp

lemma digits_zero: "digits 0 = [0x30]"
  by (subst digits.simps) (simp add: digit_char_def str_def)

lemma hd_digits_pos: "0 < n \<Longrightarrow> hd (digits n) \<noteq> 0x30"
proof (induction n rule: digits.induct)
  case (1 n)
  show ?case
  proof (cases "n < 10")
    case True
    with 1(2) show ?thesis by (subst digits.simps) (simp add: digit_char_cases)
  next
    case False
    then have "0 < n div 10" by arith
    with 1(1) False have "hd (digits (n div 10)) \<noteq> 0x30" by simp
    with False show ?thesis
      by (subst digits.simps) (simp add: digits_not_Nil)
  qed
qed

lemma digits_value_append:
  "digits_value acc (xs @ ys) = digits_value (digits_value acc xs) ys"
  by (induction xs arbitrary: acc) simp_all

lemma digits_value_digits: "digits_value 0 (digits n) = int n"
proof (induction n rule: digits.induct)
  case (1 n)
  show ?case
  proof (cases "n < 10")
    case True
    then show ?thesis by (subst digits.simps) (simp add: digit_char_cases)
  next
    case False
    with 1 have "digits_value 0 (digits (n div 10)) = int (n div 10)" by simp
    moreover have "10 * int (n div 10) + int (n mod 10) = int n"
      by (simp add: zdiv_int zmod_int)
    ultimately show ?thesis
      using False by (subst digits.simps) (simp add: digits_value_append digit_char_cases)
  qed
qed

lemma takeWhile_digits:
  "takeWhile is_digit (digits n) = digits n" "dropWhile is_digit (digits n) = []"
  using digits_all_digit [of n] by (simp_all add: takeWhile_eq_all_conv)

lemma json_int_digits: "json_int (digits n)"
proof (cases "n = 0")
  case True
  then show ?thesis by (simp add: json_int_def digits_zero)
next
  case False
  then show ?thesis
    using hd_digits_pos [of n] digits_all_digit [of n] digits_not_Nil [of n]
    by (simp add: json_int_def digits1_def list_all_iff)
qed

lemma hd_digits_not_minus: "hd (digits n) \<noteq> 0x2D"
proof -
  obtain d ds where dd: "digits n = d # ds"
    using digits_not_Nil [of n] by (cases "digits n") auto
  with digits_all_digit [of n] have "is_digit d" by simp
  then have "d \<noteq> 0x2D" by (auto simp: is_digit_def)
  with dd show ?thesis by simp
qed

lemma json_number_token_digits: "json_number_token (digits n)"
proof -
  obtain d ds where dd: "digits n = d # ds"
    using digits_not_Nil [of n] by (cases "digits n") auto
  with hd_digits_not_minus [of n] have "d \<noteq> 0x2D" by simp
  with dd have u: "(case digits n of [] \<Rightarrow> [] | c # r \<Rightarrow> if c = 0x2D then r else digits n) = digits n"
    by simp
  show ?thesis
    unfolding json_number_token_def Let_def u takeWhile_digits
    by (simp add: json_int_digits json_frac_exp_def)
qed

lemma json_number_token_toString: "json_number_token (Number_toString i)"
proof (cases "i < 0")
  case True
  then show ?thesis
    by (simp add: Number_toString_def json_number_token_def takeWhile_digits json_int_digits
        json_frac_exp_def)
next
  case False
  then show ?thesis
    by (simp add: Number_toString_def json_number_token_digits)
qed

lemma integer_part_toString: "integer_part (Number_toString i) = i"
proof (cases "i < 0")
  case True
  then show ?thesis
    by (simp add: Number_toString_def integer_part_def takeWhile_digits digits_value_digits)
next
  case False
  obtain d ds where dd: "digits (nat i) = d # ds"
    using digits_not_Nil [of "nat i"] by (cases "digits (nat i)") auto
  with hd_digits_not_minus [of "nat i"] have "d \<noteq> 0x2D" by simp
  moreover have "digits_value 0 (takeWhile is_digit (d # ds)) = int (nat i)"
    using takeWhile_digits [of "nat i"] digits_value_digits [of "nat i"] dd by simp
  ultimately show ?thesis
    using False
    by (simp add: Number_toString_def integer_part_def dd del: takeWhile.simps digits_value.simps)
qed

lemma number_chars_toString: "\<forall>c \<in> set (Number_toString i). is_number_char c"
  using digits_all_digit by (auto simp: Number_toString_def is_number_char_def)

text \<open>
  Every integer of the example runtime is a number that JSON gives back, so the
  values built from integers, strings, booleans and \<^verbatim>\<open>null\<close> are well formed there.
\<close>

lemma json_number_example: "json_number example_numbers (Some i)"
proof -
  have tt: "to_text example_numbers (Some i) = Number_toString i"
    by (simp add: example_numbers_def)
  have tw: "takeWhile is_number_char (Number_toString i) = Number_toString i"
    and dw: "dropWhile is_number_char (Number_toString i) = []"
    using number_chars_toString [of i] by (simp_all add: takeWhile_eq_all_conv)
  show ?thesis
    unfolding json_number_def parse_number_def Let_def tt tw dw
    by (simp add: example_numbers_def json_number_token_toString integer_part_toString)
qed

section \<open>The grammar on examples\<close>

text \<open>
  Numbers with a fraction or an exponent are JSON numbers; a leading zero, a leading
  plus sign, a bare minus sign and a fraction with no digit on either side are not.
\<close>

lemma json_number_token_examples:
  "json_number_token (str ''0'')" "json_number_token (str ''-0'')"
  "json_number_token (str ''1.5'')" "json_number_token (str ''1e2'')"
  "json_number_token (str ''-12.05E+10'')" "json_number_token (str ''5e-324'')"
  "\<not> json_number_token (str ''01'')" "\<not> json_number_token (str ''+1'')"
  "\<not> json_number_token (str ''-'')" "\<not> json_number_token (str ''1.'')"
  "\<not> json_number_token (str ''.5'')" "\<not> json_number_token (str ''1e'')"
  "\<not> json_number_token (str ''1.5.2'')" "\<not> json_number_token (str ''1-2'')"
  by code_simp+

text \<open>
  A number is read up to the first code unit that cannot occur in a number, on every
  runtime: the number of \<^verbatim>\<open>1.5e2,7\<close> is what the runtime reads from \<^verbatim>\<open>1.5e2\<close>.
\<close>

lemma parse_number_example:
  "parse_number ops (str ''1.5e2,7'') = Some (of_text ops (str ''1.5e2''), str '',7'')"
proof -
  have "takeWhile is_number_char (str ''1.5e2,7'') = str ''1.5e2''"
    "dropWhile is_number_char (str ''1.5e2,7'') = str '',7''"
    by code_simp+
  moreover have "json_number_token (str ''1.5e2'')" by code_simp
  ultimately show ?thesis by (simp add: parse_number_def)
qed

text \<open>
  The text \<^verbatim>\<open>["\u0100\ud83D", -12]\<close> on the example runtime: the string holds the
  code units \<open>0x0100\<close> and \<open>0xD83D\<close>.
\<close>

lemma JSON_parse_example_array:
  "JSON_parse example_numbers
     (0x5B # 0x22 # 0x5C # str ''u0100'' @ 0x5C # str ''ud83D'' @ 0x22 # str '', -12]'')
     = Inr (JArray [JString [0x0100, 0xD83D], JNumber (Some (- 12))])"
  by code_simp

text \<open>
  The text \<^verbatim>\<open>{"b":1,"10":null,"2":true,"b":7}\<close> on the example runtime: the array
  indices come first, in ascending order, and the second \<^verbatim>\<open>"b"\<close> takes the place of
  the first.
\<close>

lemma JSON_parse_example_object:
  "JSON_parse example_numbers
     (0x7B # 0x22 # 0x62 # 0x22 # str '':1,'' @ 0x22 # str ''10'' @ 0x22 # str '':null,''
        @ 0x22 # 0x32 # 0x22 # str '':true,'' @ 0x22 # 0x62 # 0x22 # str '':7}'')
     = Inr (JObject [(str ''2'', JBool True), (str ''10'', JNull), (str ''b'', JNumber (Some 7))])"
  by code_simp

text \<open>
  \<^verbatim>\<open>JSON.stringify\<close> escapes a control character and a lone surrogate and keeps a
  surrogate pair.
\<close>

lemma QuoteJSONString_examples:
  "QuoteJSONString [0x61, 0x0A, 0x01, 0xD83D, 0xDE00, 0xDE00, 0x0100]
     = 0x22 # 0x61 # 0x5C # str ''n'' @ 0x5C # str ''u0001'' @ 0xD83D # 0xDE00 # 0x5C # str ''ude00''
         @ [0x0100, 0x22]"
  by code_simp

section \<open>The operations on a database whose calls succeed\<close>

text \<open>
  With no fault pending (\<open>faults db = []\<close>) every call into SQLite succeeds, and the
  operations are functions of the table alone.
\<close>

lemma prepare_ok: "faults db = [] \<Longrightarrow> prepare db = (Inr (), db)"
  by (simp add: prepare_def sqlite_call_def)

lemma query_get_ok: "faults db = [] \<Longrightarrow> query_get db key = (Inr (cache db key), db)"
  by (simp add: query_get_def sqlite_call_def)

lemma run_delete_ok:
  "faults db = [] \<Longrightarrow> run_delete db key = (Inr (), db\<lparr>cache := (cache db)(key := None)\<rparr>)"
  by (simp add: run_delete_def sqlite_call_def)

lemma delete_ok:
  "faults db = [] \<Longrightarrow> delete db key = (Inr True, db\<lparr>cache := (cache db)(key := None)\<rparr>)"
  by (simp add: delete_def run_delete_ok)

lemma hasKey_ok: "faults db = [] \<Longrightarrow> hasKey db key = (Inr (cache db key \<noteq> None), db)"
  by (simp add: hasKey_def prepare_ok query_get_ok)

lemma get_absent:
  "faults db = [] \<Longrightarrow> cache db key = None \<Longrightarrow> get ops db now key = (Inr JNull, db)"
  by (simp add: get_def prepare_ok query_get_ok)

lemma get_null_value:
  "faults db = [] \<Longrightarrow> cache db key = Some r \<Longrightarrow> value_col r = None \<Longrightarrow>
   get ops db now key = (Inr (JBool True), db)"
  by (simp add: get_def prepare_ok query_get_ok)

lemma get_live:
  "faults db = [] \<Longrightarrow> cache db key = Some r \<Longrightarrow> value_col r = Some s \<Longrightarrow>
   (case ttl_col r of None \<Rightarrow> True | Some t \<Rightarrow> now < t) \<Longrightarrow>
   get ops db now key
     = (case JSON_parse ops s of Inl e \<Rightarrow> (Inr (JString s), db) | Inr v \<Rightarrow> (Inr v, db))"
  by (simp add: get_def prepare_ok query_get_ok)

lemma get_expired:
  "faults db = [] \<Longrightarrow> cache db key = Some r \<Longrightarrow> value_col r = Some s \<Longrightarrow>
   ttl_col r = Some t \<Longrightarrow> t \<le> now \<Longrightarrow>
   get ops db now key = (Inr JNull, db\<lparr>cache := (cache db)(key := None)\<rparr>)"
  by (simp add: get_def prepare_ok query_get_ok delete_ok)

lemma put_success:
  assumes "put ops db now key v ttl = (Inr True, db1)"
  shows "cache db1 key
           = Some \<lparr>value_col = (if truthy ops v then Some (JSON_stringify ops v) else None),
                   ttl_col = map_option (\<lambda>t. now + t) ttl\<rparr>"
    and "\<And>k. k \<noteq> key \<Longrightarrow> cache db1 k = cache db k"
    and "faults db1 = tl (faults db)"
  using assms
  by (auto simp: put_def run_insert_or_replace_def sqlite_call_def Let_def
      split: list.splits if_splits option.splits bool.splits)

lemma put_stores:
  assumes "put ops db now key v ttl = (Inr True, db1)"
  shows "cache db1 key
           = Some \<lparr>value_col = (if truthy ops v then Some (JSON_stringify ops v) else None),
                   ttl_col = map_option (\<lambda>t. now + t) ttl\<rparr>"
  using put_success(1) [OF assms] .

text \<open>On a new cache the call of \<^verbatim>\<open>put\<close> succeeds and uses up no fault.\<close>

lemma put_new_cache:
  "put ops new_cache now key v ttl = (Inr True, snd (put ops new_cache now key v ttl))"
  "faults (snd (put ops new_cache now key v ttl)) = []"
  "cache (snd (put ops new_cache now key v ttl)) key
     = Some \<lparr>value_col = (if truthy ops v then Some (JSON_stringify ops v) else None),
             ttl_col = map_option (\<lambda>t. now + t) ttl\<rparr>"
  by (simp_all add: put_def run_insert_or_replace_def sqlite_call_def new_cache_def
      split: option.splits)

section \<open>Expiry\<close>

text \<open>
  Claim C1, as amended. Let \<open>v\<close> be a value that \<^verbatim>\<open>put\<close> stores as text and JSON
  gives back: \<open>v\<close> is truthy (so it is neither \<^verbatim>\<open>null\<close> nor the empty string) and
  well formed (every number in it is finite and is read back from the text that the
  runtime writes for it, and the properties of every object in it are listed in the
  order of enumeration, no name twice). For every key and every ttl \<open>t\<close>: after
  \<^verbatim>\<open>put(key, v, t)\<close> has succeeded at time \<open>writeTime\<close>, and provided no call into
  SQLite fails after that \<^verbatim>\<open>put\<close>, a \<^verbatim>\<open>get(key)\<close> at a time
  \<open>now < writeTime + t\<close> returns \<open>v\<close> and leaves the database as it is; a
  \<^verbatim>\<open>get(key)\<close> at a time \<open>now \<ge> writeTime + t\<close> returns \<^verbatim>\<open>null\<close>, the record is
  gone from the table after it, and a \<^verbatim>\<open>hasKey(key)\<close> right after it returns
  \<^verbatim>\<open>false\<close>.
\<close>

theorem put_with_ttl_then_get:
  assumes "put ops db writeTime key v (Some t) = (Inr True, db1)" and "faults db1 = []"
    and "truthy ops v" and "well_formed ops v"
  shows "(now < writeTime + t \<longrightarrow> get ops db1 now key = (Inr v, db1)) \<and>
         (writeTime + t \<le> now \<longrightarrow>
            fst (get ops db1 now key) = Inr JNull \<and>
            cache (snd (get ops db1 now key)) key = None \<and>
            fst (hasKey (snd (get ops db1 now key)) key) = Inr False)"
proof -
  let ?r = "\<lparr>value_col = Some (JSON_stringify ops v), ttl_col = Some (writeTime + t)\<rparr>"
  have row: "cache db1 key = Some ?r"
    using put_stores [OF assms(1)] assms(3) by simp
  have live: "get ops db1 now key = (Inr v, db1)" if "now < writeTime + t"
    using get_live [OF assms(2) row, of "JSON_stringify ops v" now ops] that
      JSON_roundtrip [OF assms(4)]
    by simp
  have dead: "get ops db1 now key = (Inr JNull, db1\<lparr>cache := (cache db1)(key := None)\<rparr>)"
    if "writeTime + t \<le> now"
    using get_expired [OF assms(2) row, of "JSON_stringify ops v" "writeTime + t" now ops] that
    by simp
  have gone: "hasKey (db1\<lparr>cache := (cache db1)(key := None)\<rparr>) key
      = (Inr False, db1\<lparr>cache := (cache db1)(key := None)\<rparr>)"
    using hasKey_ok [of "db1\<lparr>cache := (cache db1)(key := None)\<rparr>" key] assms(2) by simp
  show ?thesis
    using live dead gone by auto
qed

theorem put_with_ttl_then_get_witness:
  "put example_numbers new_cache 0 ''k'' (JObject [(str ''a'', JNumber (Some 1))]) (Some 1000)
     = (Inr True,
        snd (put example_numbers new_cache 0 ''k'' (JObject [(str ''a'', JNumber (Some 1))]) (Some 1000))) \<and>
   faults (snd (put example_numbers new_cache 0 ''k'' (JObject [(str ''a'', JNumber (Some 1))]) (Some 1000)))
     = [] \<and>
   truthy example_numbers (JObject [(str ''a'', JNumber (Some 1))]) \<and>
   well_formed example_numbers (JObject [(str ''a'', JNumber (Some 1))]) \<and>
   get example_numbers
       (snd (put example_numbers new_cache 0 ''k'' (JObject [(str ''a'', JNumber (Some 1))]) (Some 1000)))
       999 ''k''
     = (Inr (JObject [(str ''a'', JNumber (Some 1))]),
        snd (put example_numbers new_cache 0 ''k'' (JObject [(str ''a'', JNumber (Some 1))]) (Some 1000))) \<and>
   fst (get example_numbers
         (snd (put example_numbers new_cache 0 ''k'' (JObject [(str ''a'', JNumber (Some 1))]) (Some 1000)))
         1000 ''k'')
     = Inr JNull \<and>
   cache (snd (get example_numbers
                (snd (put example_numbers new_cache 0 ''k'' (JObject [(str ''a'', JNumber (Some 1))])
                       (Some 1000)))
                1000 ''k'')) ''k''
     = None \<and>
   fst (hasKey (snd (get example_numbers
                      (snd (put example_numbers new_cache 0 ''k'' (JObject [(str ''a'', JNumber (Some 1))])
                             (Some 1000)))
                      1000 ''k'')) ''k'')
     = Inr False"
proof -
  let ?v = "JObject [(str ''a'', JNumber (Some 1))] :: int option js_value"
  let ?db1 = "snd (put example_numbers new_cache 0 ''k'' ?v (Some 1000))"
  have p: "put example_numbers new_cache 0 ''k'' ?v (Some 1000) = (Inr True, ?db1)"
    by (rule put_new_cache)
  have f: "faults ?db1 = []"
    by (rule put_new_cache)
  have t: "truthy example_numbers ?v" by simp
  have w: "well_formed example_numbers ?v" by code_simp
  show ?thesis
    using p f t w put_with_ttl_then_get [OF p f t w, of 999] put_with_ttl_then_get [OF p f t w, of 1000]
    by simp
qed

text \<open>
  Claim C1 as stated speaks of every value and of no storage condition. It fails for
  \<^verbatim>\<open>null\<close>: after \<^verbatim>\<open>put("k", null, 1000)\<close> at time 0 a \<^verbatim>\<open>get("k")\<close> at time 999
  returns \<^verbatim>\<open>true\<close>, not the value put; at time 1000 it does not return \<^verbatim>\<open>null\<close>, the
  record stays, and \<^verbatim>\<open>hasKey("k")\<close> after it is \<^verbatim>\<open>true\<close>. It fails for the empty
  string, which \<^verbatim>\<open>get\<close> does not return at time 999. It fails for a value that holds
  a number that is not finite: after \<^verbatim>\<open>put("k", [NaN], 1000)\<close> a \<^verbatim>\<open>get("k")\<close> at time
  999 returns \<^verbatim>\<open>[null]\<close>. And it fails when the \<^verbatim>\<open>DELETE\<close> statement of the expired
  \<^verbatim>\<open>get\<close> fails (the fourth call into SQLite below): \<^verbatim>\<open>get\<close> drops the result of
  \<^verbatim>\<open>this.delete(key)\<close> and returns \<^verbatim>\<open>null\<close>, the record stays, and \<^verbatim>\<open>hasKey("k")\<close>
  after it is \<^verbatim>\<open>true\<close>.
\<close>

theorem put_null_with_ttl_counterexample:
  "fst (put example_numbers new_cache 0 ''k'' JNull (Some 1000)) = Inr True \<and>
   fst (get example_numbers (snd (put example_numbers new_cache 0 ''k'' JNull (Some 1000))) 999 ''k'')
     = Inr (JBool True) \<and>
   fst (get example_numbers (snd (put example_numbers new_cache 0 ''k'' JNull (Some 1000))) 999 ''k'')
     \<noteq> Inr JNull \<and>
   fst (get example_numbers (snd (put example_numbers new_cache 0 ''k'' JNull (Some 1000))) 1000 ''k'')
     \<noteq> Inr JNull \<and>
   cache (snd (get example_numbers (snd (put example_numbers new_cache 0 ''k'' JNull (Some 1000)))
                 1000 ''k'')) ''k''
     \<noteq> None \<and>
   fst (hasKey (snd (get example_numbers (snd (put example_numbers new_cache 0 ''k'' JNull (Some 1000)))
                       1000 ''k'')) ''k'')
     = Inr True \<and>
   fst (put example_numbers new_cache 0 ''k'' (JString []) (Some 1000)) = Inr True \<and>
   fst (get example_numbers (snd (put example_numbers new_cache 0 ''k'' (JString []) (Some 1000)))
          999 ''k'')
     \<noteq> Inr (JString []) \<and>
   fst (put example_numbers new_cache 0 ''k'' (JArray [JNumber None]) (Some 1000)) = Inr True \<and>
   fst (get example_numbers
          (snd (put example_numbers new_cache 0 ''k'' (JArray [JNumber None]) (Some 1000))) 999 ''k'')
     = Inr (JArray [JNull]) \<and>
   JArray [JNull] \<noteq> JArray [JNumber (None :: int option)] \<and>
   fst (put example_numbers \<lparr>cache = Map.empty, faults = [False, False, False, True]\<rparr> 0 ''k''
          (JString (str ''a'')) (Some 1000))
     = Inr True \<and>
   fst (get example_numbers
          (snd (put example_numbers \<lparr>cache = Map.empty, faults = [False, False, False, True]\<rparr> 0 ''k''
                  (JString (str ''a'')) (Some 1000)))
          1000 ''k'')
     = Inr JNull \<and>
   cache (snd (get example_numbers
                 (snd (put example_numbers \<lparr>cache = Map.empty, faults = [False, False, False, True]\<rparr>
                         0 ''k'' (JString (str ''a'')) (Some 1000)))
                 1000 ''k'')) ''k''
     \<noteq> None \<and>
   fst (hasKey (snd (get example_numbers
                       (snd (put example_numbers
                               \<lparr>cache = Map.empty, faults = [False, False, False, True]\<rparr>
                               0 ''k'' (JString (str ''a'')) (Some 1000)))
                       1000 ''k'')) ''k'')
     = Inr True"
proof -
  have null_case:
    "fst (put example_numbers new_cache 0 ''k'' JNull (Some 1000)) = Inr True"
    "fst (get example_numbers (snd (put example_numbers new_cache 0 ''k'' JNull (Some 1000))) 999 ''k'')
       = Inr (JBool True)"
    "fst (get example_numbers (snd (put example_numbers new_cache 0 ''k'' JNull (Some 1000))) 1000 ''k'')
       \<noteq> Inr JNull"
    "cache (snd (get example_numbers (snd (put example_numbers new_cache 0 ''k'' JNull (Some 1000)))
                   1000 ''k'')) ''k''
       \<noteq> None"
    "fst (hasKey (snd (get example_numbers (snd (put example_numbers new_cache 0 ''k'' JNull (Some 1000)))
                         1000 ''k'')) ''k'')
       = Inr True"
    by (simp_all add: put_def get_def hasKey_def prepare_def query_get_def run_insert_or_replace_def
        sqlite_call_def new_cache_def)
  have empty_case:
    "fst (put example_numbers new_cache 0 ''k'' (JString []) (Some 1000)) = Inr True"
    "fst (get example_numbers (snd (put example_numbers new_cache 0 ''k'' (JString []) (Some 1000)))
            999 ''k'')
       \<noteq> Inr (JString [])"
    by (simp_all add: put_def get_def hasKey_def prepare_def query_get_def run_insert_or_replace_def
        sqlite_call_def new_cache_def)
  have nan_parse:
    "JSON_parse example_numbers (JSON_stringify example_numbers (JArray [JNumber None]))
       = Inr (JArray [JNull])"
    by code_simp
  have nan_case:
    "fst (put example_numbers new_cache 0 ''k'' (JArray [JNumber None]) (Some 1000)) = Inr True"
    "fst (get example_numbers
            (snd (put example_numbers new_cache 0 ''k'' (JArray [JNumber None]) (Some 1000))) 999 ''k'')
       = Inr (JArray [JNull])"
    using nan_parse
    by (simp_all add: put_def get_def prepare_def query_get_def run_insert_or_replace_def
        sqlite_call_def new_cache_def del: JSON_stringify.simps)
  have fault_case:
    "fst (put example_numbers \<lparr>cache = Map.empty, faults = [False, False, False, True]\<rparr> 0 ''k''
            (JString (str ''a'')) (Some 1000))
       = Inr True"
    "fst (get example_numbers
            (snd (put example_numbers \<lparr>cache = Map.empty, faults = [False, False, False, True]\<rparr> 0 ''k''
                    (JString (str ''a'')) (Some 1000)))
            1000 ''k'')
       = Inr JNull"
    "cache (snd (get example_numbers
                   (snd (put example_numbers \<lparr>cache = Map.empty, faults = [False, False, False, True]\<rparr>
                           0 ''k'' (JString (str ''a'')) (Some 1000)))
                   1000 ''k'')) ''k''
       \<noteq> None"
    "fst (hasKey (snd (get example_numbers
                         (snd (put example_numbers
                                 \<lparr>cache = Map.empty, faults = [False, False, False, True]\<rparr>
                                 0 ''k'' (JString (str ''a'')) (Some 1000)))
                         1000 ''k'')) ''k'')
       = Inr True"
    by (simp_all add: put_def get_def hasKey_def delete_def run_delete_def prepare_def query_get_def
        run_insert_or_replace_def sqlite_call_def str_def)
  show ?thesis
    using null_case empty_case nan_case fault_case by simp
qed

section \<open>Round trip\<close>

text \<open>
  After a \<^verbatim>\<open>put\<close> with no ttl of a truthy, well-formed value, \<^verbatim>\<open>get\<close> returns that
  value at every time: \<^verbatim>\<open>JSON.parse\<close> reads back the text that \<^verbatim>\<open>JSON.stringify\<close>
  wrote.
\<close>

lemma put_then_get_roundtrip:
  assumes "put ops db writeTime key v None = (Inr True, db1)" and "faults db1 = []"
    and "truthy ops v" and "well_formed ops v"
  shows "get ops db1 now key = (Inr v, db1)"
proof -
  have row: "cache db1 key = Some \<lparr>value_col = Some (JSON_stringify ops v), ttl_col = None\<rparr>"
    using put_stores [OF assms(1)] assms(3) by simp
  show ?thesis
    using get_live [OF assms(2) row, of "JSON_stringify ops v" now ops] JSON_roundtrip [OF assms(4)]
    by simp
qed

text \<open>
  Claim C2 says that after \<^verbatim>\<open>put(k, v)\<close> with no ttl, \<^verbatim>\<open>get(k)\<close> returns a value
  equal to \<open>v\<close>, for every structured value and every string \<open>v\<close>. The code breaks it
  at the empty string: \<^verbatim>\<open>value ? JSON.stringify(value) : null\<close> takes the empty string
  for an absent value, the row is stored with a \<^verbatim>\<open>NULL\<close> value, and \<^verbatim>\<open>get\<close> returns
  \<^verbatim>\<open>true\<close>. This is the run of \<^verbatim>\<open>put("k", "")\<close> and \<^verbatim>\<open>get("k")\<close> on a new cache,
  on every runtime.
\<close>

theorem put_empty_string_then_get_true:
  "fst (put ops new_cache 0 ''k'' (JString []) None) = Inr True \<and>
   cache (snd (put ops new_cache 0 ''k'' (JString []) None)) ''k''
     = Some \<lparr>value_col = None, ttl_col = None\<rparr> \<and>
   fst (get ops (snd (put ops new_cache 0 ''k'' (JString []) None)) 1 ''k'') = Inr (JBool True) \<and>
   JBool True \<noteq> JString []"
  by (simp add: put_def get_def prepare_def query_get_def run_insert_or_replace_def
      sqlite_call_def new_cache_def)

section \<open>Existence and liveness\<close>

text \<open>
  Claim C3. For every key whose record is expired (its ttl is present and at most the
  current time) and still in the table, \<^verbatim>\<open>hasKey(key)\<close> returns \<^verbatim>\<open>true\<close> and leaves
  the record where it is: \<^verbatim>\<open>hasKey\<close> makes no check of the ttl. Where the record
  holds a value, \<^verbatim>\<open>get(key)\<close> at the same time returns \<^verbatim>\<open>null\<close>, so the two
  disagree on whether the key is live.
\<close>

theorem hasKey_expired_record:
  assumes "faults db = []" and "cache db key = Some r" and "ttl_col r = Some t" and "t \<le> now"
  shows "hasKey db key = (Inr True, db) \<and>
         (value_col r \<noteq> None \<longrightarrow> fst (get ops db now key) = Inr JNull)"
proof -
  have "hasKey db key = (Inr True, db)"
    using hasKey_ok [OF assms(1), of key] assms(2) by simp
  moreover have "fst (get ops db now key) = Inr JNull" if "value_col r \<noteq> None"
  proof -
    from that obtain s where "value_col r = Some s" by auto
    from get_expired [OF assms(1,2) this assms(3,4), of ops] show ?thesis by simp
  qed
  ultimately show ?thesis by simp
qed

theorem hasKey_expired_record_witness:
  "faults (snd (put example_numbers new_cache 0 ''k'' (JString (str ''a'')) (Some 1000))) = [] \<and>
   cache (snd (put example_numbers new_cache 0 ''k'' (JString (str ''a'')) (Some 1000))) ''k''
     = Some \<lparr>value_col = Some (JSON_stringify example_numbers (JString (str ''a''))),
             ttl_col = Some 1000\<rparr> \<and>
   ttl_col \<lparr>value_col = Some (JSON_stringify example_numbers (JString (str ''a''))),
            ttl_col = Some 1000\<rparr> = Some 1000 \<and>
   (1000::int) \<le> 5000 \<and>
   hasKey (snd (put example_numbers new_cache 0 ''k'' (JString (str ''a'')) (Some 1000))) ''k''
     = (Inr True, snd (put example_numbers new_cache 0 ''k'' (JString (str ''a'')) (Some 1000))) \<and>
   value_col \<lparr>value_col = Some (JSON_stringify example_numbers (JString (str ''a''))),
              ttl_col = Some 1000\<rparr> \<noteq> None \<and>
   fst (get example_numbers
          (snd (put example_numbers new_cache 0 ''k'' (JString (str ''a'')) (Some 1000))) 5000 ''k'')
     = Inr JNull"
proof -
  let ?db = "snd (put example_numbers new_cache 0 ''k'' (JString (str ''a'')) (Some 1000))"
  let ?r = "\<lparr>value_col = Some (JSON_stringify example_numbers (JString (str ''a''))),
             ttl_col = Some 1000\<rparr>"
  have f: "faults ?db = []"
    by (rule put_new_cache)
  have c: "cache ?db ''k'' = Some ?r"
    by (simp add: put_new_cache(3) str_def)
  have t: "ttl_col ?r = Some 1000" by simp
  have e: "(1000::int) \<le> 5000" by simp
  show ?thesis
    using f c t e hasKey_expired_record [OF f c t e, of example_numbers] by simp
qed

text \<open>
  Claim C4. For every key, after \<^verbatim>\<open>put(key, null)\<close> has succeeded (with or without a
  ttl), \<^verbatim>\<open>get(key)\<close> returns the boolean \<^verbatim>\<open>true\<close>, at every time; for a key with no
  record \<^verbatim>\<open>get\<close> returns \<^verbatim>\<open>null\<close>, so the two are told apart.
\<close>

theorem put_null_then_get_true:
  assumes "put ops db writeTime key JNull ttl = (Inr True, db1)" and "faults db1 = []"
  shows "get ops db1 now key = (Inr (JBool True), db1) \<and>
         (cache db1 k = None \<longrightarrow> get ops db1 now k = (Inr JNull, db1))"
proof -
  have row: "cache db1 key = Some \<lparr>value_col = None, ttl_col = map_option (\<lambda>t. writeTime + t) ttl\<rparr>"
    using put_stores [OF assms(1)] by simp
  show ?thesis
    using get_null_value [OF assms(2) row, of ops now] get_absent [OF assms(2), of k ops now] by simp
qed

theorem put_null_then_get_true_witness:
  "put example_numbers new_cache 0 ''k'' JNull None
     = (Inr True, snd (put example_numbers new_cache 0 ''k'' JNull None)) \<and>
   faults (snd (put example_numbers new_cache 0 ''k'' JNull None)) = [] \<and>
   get example_numbers (snd (put example_numbers new_cache 0 ''k'' JNull None)) 7 ''k''
     = (Inr (JBool True), snd (put example_numbers new_cache 0 ''k'' JNull None)) \<and>
   cache (snd (put example_numbers new_cache 0 ''k'' JNull None)) ''other'' = None \<and>
   get example_numbers (snd (put example_numbers new_cache 0 ''k'' JNull None)) 7 ''other''
     = (Inr JNull, snd (put example_numbers new_cache 0 ''k'' JNull None))"
proof -
  let ?db1 = "snd (put example_numbers new_cache 0 ''k'' JNull None)"
  have p: "put example_numbers new_cache 0 ''k'' JNull None = (Inr True, ?db1)"
    by (rule put_new_cache)
  have f: "faults ?db1 = []"
    by (rule put_new_cache)
  have a: "cache ?db1 ''other'' = None"
    by (simp add: put_def run_insert_or_replace_def sqlite_call_def new_cache_def)
  show ?thesis
    using p f a put_null_then_get_true [OF p f, of 7 "''other''"] by simp
qed

section \<open>Replacement\<close>

text \<open>
  Claim C5. A \<^verbatim>\<open>put(key, v1, ttl1)\<close> that succeeds leaves under the key the record
  made of \<open>v1\<close> and \<open>ttl1\<close> alone, whatever record the key had before: value and ttl are
  both overwritten. In particular after \<^verbatim>\<open>put(key, "a", 1000)\<close> and then
  \<^verbatim>\<open>put(key, "b")\<close> with no ttl, \<^verbatim>\<open>get(key)\<close> returns \<^verbatim>\<open>"b"\<close> at every time \<open>now\<close>,
  also past the first record's expiry.
\<close>

theorem put_replaces_record:
  assumes "put ops db1 t1 key v1 ttl1 = (Inr True, db2)"
  shows "cache db2 key
           = Some \<lparr>value_col = (if truthy ops v1 then Some (JSON_stringify ops v1) else None),
                   ttl_col = map_option (\<lambda>t. t1 + t) ttl1\<rparr> \<and>
         (put ops db0 t0 key (JString (str ''a'')) (Some 1000) = (Inr True, db1) \<and>
          v1 = JString (str ''b'') \<and> ttl1 = None \<and> faults db2 = []
            \<longrightarrow> get ops db2 now key = (Inr (JString (str ''b'')), db2))"
proof -
  have row: "cache db2 key
           = Some \<lparr>value_col = (if truthy ops v1 then Some (JSON_stringify ops v1) else None),
                   ttl_col = map_option (\<lambda>t. t1 + t) ttl1\<rparr>"
    using put_stores [OF assms] .
  have "get ops db2 now key = (Inr (JString (str ''b'')), db2)"
    if "v1 = JString (str ''b'')" "ttl1 = None" "faults db2 = []"
  proof -
    have w: "well_formed ops (JString (str ''b''))" by simp
    have r: "cache db2 key
        = Some \<lparr>value_col = Some (JSON_stringify ops (JString (str ''b''))), ttl_col = None\<rparr>"
      using row that(1,2) by (simp add: str_def)
    show ?thesis
      using get_live [OF that(3) r, of "JSON_stringify ops (JString (str ''b''))" now ops]
        JSON_roundtrip [OF w]
      by simp
  qed
  with row show ?thesis by blast
qed

theorem put_replaces_record_witness:
  "put example_numbers
       (snd (put example_numbers new_cache 0 ''k'' (JString (str ''a'')) (Some 1000)))
       10 ''k'' (JString (str ''b'')) None
     = (Inr True,
        snd (put example_numbers
               (snd (put example_numbers new_cache 0 ''k'' (JString (str ''a'')) (Some 1000)))
               10 ''k'' (JString (str ''b'')) None)) \<and>
   put example_numbers new_cache 0 ''k'' (JString (str ''a'')) (Some 1000)
     = (Inr True, snd (put example_numbers new_cache 0 ''k'' (JString (str ''a'')) (Some 1000))) \<and>
   faults (snd (put example_numbers
                  (snd (put example_numbers new_cache 0 ''k'' (JString (str ''a'')) (Some 1000)))
                  10 ''k'' (JString (str ''b'')) None))
     = [] \<and>
   cache (snd (put example_numbers
                 (snd (put example_numbers new_cache 0 ''k'' (JString (str ''a'')) (Some 1000)))
                 10 ''k'' (JString (str ''b'')) None)) ''k''
     = Some \<lparr>value_col = Some (JSON_stringify example_numbers (JString (str ''b''))),
             ttl_col = None\<rparr> \<and>
   get example_numbers
       (snd (put example_numbers
               (snd (put example_numbers new_cache 0 ''k'' (JString (str ''a'')) (Some 1000)))
               10 ''k'' (JString (str ''b'')) None))
       5000 ''k''
     = (Inr (JString (str ''b'')),
        snd (put example_numbers
               (snd (put example_numbers new_cache 0 ''k'' (JString (str ''a'')) (Some 1000)))
               10 ''k'' (JString (str ''b'')) None))"
proof -
  let ?db1 = "snd (put example_numbers new_cache 0 ''k'' (JString (str ''a'')) (Some 1000))"
  let ?db2 = "snd (put example_numbers ?db1 10 ''k'' (JString (str ''b'')) None)"
  have p1: "put example_numbers new_cache 0 ''k'' (JString (str ''a'')) (Some 1000) = (Inr True, ?db1)"
    by (rule put_new_cache)
  have p2: "put example_numbers ?db1 10 ''k'' (JString (str ''b'')) None = (Inr True, ?db2)"
    by (simp add: put_def run_insert_or_replace_def sqlite_call_def new_cache_def)
  have f: "faults ?db2 = []"
    by (simp add: put_def run_insert_or_replace_def sqlite_call_def new_cache_def)
  have t: "truthy example_numbers (JString (str ''b''))" by (simp add: str_def)
  show ?thesis
    using p1 p2 f t put_replaces_record [OF p2, of new_cache 0 5000] by simp
qed

section \<open>Deletion\<close>

text \<open>
  Claim C6. On a database whose call succeeds \<^verbatim>\<open>delete(key)\<close> returns \<^verbatim>\<open>true\<close>,
  whether the key has a record or not; for a key with no record it leaves the database
  as it was. \<^verbatim>\<open>delete\<close> returns \<^verbatim>\<open>false\<close> exactly when the \<^verbatim>\<open>DELETE\<close> statement
  itself throws.
\<close>

theorem delete_absent_key:
  "(faults db = [] \<longrightarrow> fst (delete db key) = Inr True) \<and>
   (faults db = [] \<and> cache db key = None \<longrightarrow> delete db key = (Inr True, db)) \<and>
   (fst (delete db key) = Inr False \<longleftrightarrow> fst (run_delete db key) = Inl SQLiteError)"
proof -
  have "delete db key = (Inr True, db)" if "faults db = []" "cache db key = None"
  proof -
    from that(2) have "(cache db)(key := None) = cache db" by (simp add: fun_upd_idem)
    with delete_ok [OF that(1), of key] show ?thesis by simp
  qed
  moreover have "fst (delete db key) = Inr True" if "faults db = []"
    using delete_ok [OF that, of key] by simp
  moreover have "fst (delete db key) = Inr False \<longleftrightarrow> fst (run_delete db key) = Inl SQLiteError"
    by (auto simp: delete_def run_delete_def sqlite_call_def split: list.splits bool.splits)
  ultimately show ?thesis by blast
qed

theorem delete_absent_key_witness:
  "faults new_cache = [] \<and> cache new_cache ''k'' = None \<and>
   delete new_cache ''k'' = (Inr True, new_cache) \<and>
   fst (run_delete \<lparr>cache = Map.empty, faults = [True]\<rparr> ''k'') = Inl SQLiteError \<and>
   fst (delete \<lparr>cache = Map.empty, faults = [True]\<rparr> ''k'') = Inr False"
proof -
  have f: "faults new_cache = []" by (simp add: new_cache_def)
  have a: "cache new_cache ''k'' = None" by (simp add: new_cache_def)
  have e: "fst (run_delete \<lparr>cache = Map.empty, faults = [True]\<rparr> ''k'') = Inl SQLiteError"
    by (simp add: run_delete_def sqlite_call_def)
  show ?thesis
    using f a e delete_absent_key [of new_cache "''k''"]
      delete_absent_key [of "\<lparr>cache = Map.empty, faults = [True]\<rparr>" "''k''"]
    by simp
qed

section \<open>Decoding\<close>

text \<open>
  Claim C7. For every key whose record is live (no ttl, or a ttl greater than the
  current time) and holds a text, \<^verbatim>\<open>get(key)\<close> returns the value that \<^verbatim>\<open>JSON.parse\<close>
  decodes from the text when the text decodes, and the text itself, unchanged, when it
  does not; in neither case does \<^verbatim>\<open>get\<close> throw or change the database. This holds
  for every stored text and on every runtime, on a database whose calls succeed.
\<close>

theorem get_decodes_or_returns_raw_text:
  assumes "faults db = []" and "cache db key = Some r" and "value_col r = Some s"
    and "ttl_col r = None \<or> (\<exists>t. ttl_col r = Some t \<and> now < t)"
  shows "get ops db now key
           = (case JSON_parse ops s of Inl e \<Rightarrow> (Inr (JString s), db) | Inr v \<Rightarrow> (Inr v, db))"
proof -
  from assms(4) have "case ttl_col r of None \<Rightarrow> True | Some t \<Rightarrow> now < t"
    by (auto split: option.splits)
  from get_live [OF assms(1-3) this] show ?thesis .
qed

theorem get_decodes_or_returns_raw_text_witness:
  "faults \<lparr>cache = [''y'' \<mapsto> \<lparr>value_col = Some (str ''plain''), ttl_col = None\<rparr>], faults = []\<rparr> = [] \<and>
   cache \<lparr>cache = [''y'' \<mapsto> \<lparr>value_col = Some (str ''plain''), ttl_col = None\<rparr>], faults = []\<rparr> ''y''
     = Some \<lparr>value_col = Some (str ''plain''), ttl_col = None\<rparr> \<and>
   JSON_parse example_numbers (str ''plain'') = Inl SyntaxError \<and>
   get example_numbers
       \<lparr>cache = [''y'' \<mapsto> \<lparr>value_col = Some (str ''plain''), ttl_col = None\<rparr>], faults = []\<rparr> 5 ''y''
     = (Inr (JString (str ''plain'')),
        \<lparr>cache = [''y'' \<mapsto> \<lparr>value_col = Some (str ''plain''), ttl_col = None\<rparr>], faults = []\<rparr>) \<and>
   faults (snd (put example_numbers new_cache 0 ''x'' (JObject [(str ''a'', JNumber (Some 1))])
                  (Some 1000)))
     = [] \<and>
   cache (snd (put example_numbers new_cache 0 ''x'' (JObject [(str ''a'', JNumber (Some 1))])
                 (Some 1000))) ''x''
     = Some \<lparr>value_col = Some (JSON_stringify example_numbers (JObject [(str ''a'', JNumber (Some 1))])),
             ttl_col = Some 1000\<rparr> \<and>
   JSON_parse example_numbers (JSON_stringify example_numbers (JObject [(str ''a'', JNumber (Some 1))]))
     = Inr (JObject [(str ''a'', JNumber (Some 1))]) \<and>
   get example_numbers
       (snd (put example_numbers new_cache 0 ''x'' (JObject [(str ''a'', JNumber (Some 1))]) (Some 1000)))
       500 ''x''
     = (Inr (JObject [(str ''a'', JNumber (Some 1))]),
        snd (put example_numbers new_cache 0 ''x'' (JObject [(str ''a'', JNumber (Some 1))]) (Some 1000)))"
proof -
  let ?ry = "\<lparr>value_col = Some (str ''plain''), ttl_col = None\<rparr>"
  let ?dby = "\<lparr>cache = [''y'' \<mapsto> ?ry], faults = []\<rparr>"
  let ?v = "JObject [(str ''a'', JNumber (Some 1))] :: int option js_value"
  let ?rx = "\<lparr>value_col = Some (JSON_stringify example_numbers ?v), ttl_col = Some 1000\<rparr>"
  let ?dbx = "snd (put example_numbers new_cache 0 ''x'' ?v (Some 1000))"
  have fy: "faults ?dby = []" by simp
  have cy: "cache ?dby ''y'' = Some ?ry" by simp
  have vy: "value_col ?ry = Some (str ''plain'')" by simp
  have ty: "ttl_col ?ry = None \<or> (\<exists>t. ttl_col ?ry = Some t \<and> 5 < t)" by simp
  have py: "JSON_parse example_numbers (str ''plain'') = Inl SyntaxError" by code_simp
  have fx: "faults ?dbx = []"
    by (rule put_new_cache)
  have cx: "cache ?dbx ''x'' = Some ?rx"
    by (simp add: put_new_cache(3) del: JSON_stringify.simps)
  have vx: "value_col ?rx = Some (JSON_stringify example_numbers ?v)" by simp
  have tx: "ttl_col ?rx = None \<or> (\<exists>t. ttl_col ?rx = Some t \<and> 500 < t)" by simp
  have px: "JSON_parse example_numbers (JSON_stringify example_numbers ?v) = Inr ?v" by code_simp
  show ?thesis
    using fy cy py fx cx px
      get_decodes_or_returns_raw_text [OF fy cy vy ty, of example_numbers]
      get_decodes_or_returns_raw_text [OF fx cx vx tx, of example_numbers]
    by (simp del: JSON_stringify.simps)
qed

section \<open>Storage failures\<close>

text \<open>
  \<^verbatim>\<open>put\<close>, \<^verbatim>\<open>delete\<close> and \<^verbatim>\<open>hasKey\<close> run their statements inside \<^verbatim>\<open>try\<close> and
  never throw.
\<close>

lemma put_delete_hasKey_never_throw:
  "(\<exists>b. fst (put ops db now key v ttl) = Inr b) \<and>
   (\<exists>b. fst (delete db key) = Inr b) \<and>
   (\<exists>b. fst (hasKey db key) = Inr b)"
  by (auto simp: put_def delete_def hasKey_def prepare_def query_get_def run_delete_def
      run_insert_or_replace_def sqlite_call_def Let_def split: list.splits bool.splits)

text \<open>
  Claim C8 says that no operation throws past its own boundary, and that \<^verbatim>\<open>get\<close>
  turns a storage failure into \<^verbatim>\<open>null\<close>. \<^verbatim>\<open>get\<close> has no \<^verbatim>\<open>try\<close> around
  \<^verbatim>\<open>prepare\<close> and \<^verbatim>\<open>query.get\<close>: when either call throws, the error leaves
  \<^verbatim>\<open>get\<close>. These are the two runs, the first with \<^verbatim>\<open>prepare\<close> failing and the
  second with \<^verbatim>\<open>query.get\<close> failing, on every runtime.
\<close>

theorem get_throws_when_storage_fails:
  "fst (get ops \<lparr>cache = Map.empty, faults = [True]\<rparr> 0 ''k'') = Inl SQLiteError \<and>
   fst (get ops \<lparr>cache = Map.empty, faults = [False, True]\<rparr> 0 ''k'') = Inl SQLiteError"
  by (simp add: get_def prepare_def query_get_def sqlite_call_def)

section \<open>Falsy values and stored nulls\<close>

text \<open>
  Claim C9. For every key, after \<^verbatim>\<open>put(key, "")\<close> has succeeded the stored value is
  \<^verbatim>\<open>NULL\<close> and \<^verbatim>\<open>get(key)\<close> returns the boolean \<^verbatim>\<open>true\<close>; the call does to the
  database exactly what \<^verbatim>\<open>put(key, null)\<close> does.
\<close>

theorem put_empty_string_stores_null:
  assumes "put ops db writeTime key (JString []) ttl = (Inr True, db1)" and "faults db1 = []"
  shows "cache db1 key = Some \<lparr>value_col = None, ttl_col = map_option (\<lambda>t. writeTime + t) ttl\<rparr> \<and>
         get ops db1 now key = (Inr (JBool True), db1) \<and>
         put ops db writeTime key JNull ttl = put ops db writeTime key (JString []) ttl"
proof -
  have row: "cache db1 key = Some \<lparr>value_col = None, ttl_col = map_option (\<lambda>t. writeTime + t) ttl\<rparr>"
    using put_stores [OF assms(1)] by simp
  have same: "put ops db writeTime key JNull ttl = put ops db writeTime key (JString []) ttl"
    by (simp add: put_def)
  show ?thesis
    using row same get_null_value [OF assms(2) row, of ops now] by simp
qed

theorem put_empty_string_stores_null_witness:
  "put example_numbers new_cache 0 ''k'' (JString []) (Some 1000)
     = (Inr True, snd (put example_numbers new_cache 0 ''k'' (JString []) (Some 1000))) \<and>
   faults (snd (put example_numbers new_cache 0 ''k'' (JString []) (Some 1000))) = [] \<and>
   cache (snd (put example_numbers new_cache 0 ''k'' (JString []) (Some 1000))) ''k''
     = Some \<lparr>value_col = None, ttl_col = Some 1000\<rparr> \<and>
   get example_numbers (snd (put example_numbers new_cache 0 ''k'' (JString []) (Some 1000))) 3 ''k''
     = (Inr (JBool True), snd (put example_numbers new_cache 0 ''k'' (JString []) (Some 1000))) \<and>
   put example_numbers new_cache 0 ''k'' JNull (Some 1000)
     = put example_numbers new_cache 0 ''k'' (JString []) (Some 1000)"
proof -
  let ?db1 = "snd (put example_numbers new_cache 0 ''k'' (JString []) (Some 1000))"
  have p: "put example_numbers new_cache 0 ''k'' (JString []) (Some 1000) = (Inr True, ?db1)"
    by (rule put_new_cache)
  have f: "faults ?db1 = []"
    by (rule put_new_cache)
  show ?thesis
    using p f put_empty_string_stores_null [OF p f, of 3] by simp
qed

text \<open>
  Claim C10. For every key whose record has a \<^verbatim>\<open>NULL\<close> value, \<^verbatim>\<open>get(key)\<close> returns
  the boolean \<^verbatim>\<open>true\<close> and leaves the record in the table, at every time and
  whatever the record's ttl, so also when the ttl has passed: the test for a
  \<^verbatim>\<open>NULL\<close> value comes before the test of the ttl.
\<close>

theorem get_null_value_never_expires:
  assumes "faults db = []" and "cache db key = Some r" and "value_col r = None"
  shows "get ops db now key = (Inr (JBool True), db) \<and> cache (snd (get ops db now key)) key = Some r"
  using get_null_value [OF assms, of ops now] assms(2) by simp

theorem get_null_value_never_expires_witness:
  "faults (snd (put example_numbers new_cache 0 ''k'' JNull (Some 1000))) = [] \<and>
   cache (snd (put example_numbers new_cache 0 ''k'' JNull (Some 1000))) ''k''
     = Some \<lparr>value_col = None, ttl_col = Some 1000\<rparr> \<and>
   value_col \<lparr>value_col = None, ttl_col = Some 1000\<rparr> = None \<and>
   (1000::int) \<le> 5000 \<and>
   get example_numbers (snd (put example_numbers new_cache 0 ''k'' JNull (Some 1000))) 5000 ''k''
     = (Inr (JBool True), snd (put example_numbers new_cache 0 ''k'' JNull (Some 1000))) \<and>
   cache (snd (get example_numbers (snd (put example_numbers new_cache 0 ''k'' JNull (Some 1000)))
                 5000 ''k'')) ''k''
     = Some \<lparr>value_col = None, ttl_col = Some 1000\<rparr>"
proof -
  let ?db = "snd (put example_numbers new_cache 0 ''k'' JNull (Some 1000))"
  let ?r = "\<lparr>value_col = None, ttl_col = Some (1000::int)\<rparr>"
  have f: "faults ?db = []"
    by (rule put_new_cache)
  have c: "cache ?db ''k'' = Some ?r"
    by (simp add: put_new_cache(3))
  have v: "value_col ?r = None" by simp
  show ?thesis
    using f c v get_null_value_never_expires [OF f c v, of example_numbers 5000] by simp
qed

end
